theory Spec2Isabelle
  imports Main "HOL-Library.Word"
begin

section \<open>Data model\<close>

text \<open>
  The program is the driver \<open>uploadFile\<close>/\<open>main\<close> of the command line tool together
  with the package \<open>checkpoint\<close> (\<open>New\<close>, \<open>Save\<close>, \<open>Complete\<close>, \<open>Seek\<close>).
  Bytes are 8-bit words, Go strings are byte strings, Go \<open>int64\<close> values are
  integers (the one place where the code adds them, \<open>Seek\<close>, wraps explicitly).
\<close>

type_synonym byte = "8 word"

text \<open>
  A Go \<open>error\<close> value. \<open>AwsError code\<close> is an error that implements
  \<open>awserr.Error\<close> with \<open>Code() = code\<close>; \<open>PlainError msg\<close> is any other error
  (errors of package \<open>os\<close>, \<open>strconv\<close>, runtime panics).
\<close>

datatype error = AwsError string | PlainError string

text \<open>
  How a call ends: it returns (\<open>Done\<close>), or it ends the whole process through
  \<open>log.Fatal\<close> (\<open>os.Exit(1)\<close>), or it panics (\<open>log.Panic\<close>, \<open>util.Must\<close>, a
  run-time panic).
\<close>

datatype 'a run = Done 'a | Fatal error | Panic error

record CompletedPart =
  ETag :: string
  PartNumber :: int
  Size :: int

text \<open>
  \<open>LocalCheckpoint\<close>: \<open>uploadID\<close> is a \<open>*string\<close> and may be nil. The fields
  \<open>checkpointFile\<close> and \<open>svc\<close> are handles into the world below.
\<close>

record LocalCheckpoint =
  uploadID :: "string option"
  parts :: "CompletedPart list"
  bucket :: string
  key :: string

section \<open>The world outside the process\<close>

text \<open>
  Every request sent through the S3 client is logged with its answer.
\<close>

datatype s3_call =
    CreateCall string "error + string"
  | UploadPartCall "string option" int "byte list" "error + string"
  | CompleteCall "string option" "(string \<times> int) list" "error option"

datatype dir_state = NoDir | IsDir | NotDir

text \<open>
  One world per uploaded file: the S3 service (open multipart uploads with
  their stored parts, finished objects by key), the checkpoint directory and
  the one checkpoint file of this file (named by the SHA-256 of its path, so
  the name is not modelled). \<open>ckpt_file\<close> is the content the process sees,
  \<open>ckpt_disk\<close> the content that is on stable storage; \<open>None\<close> means that the
  file does not exist. \<open>issue_id\<close> is the upload id the service hands out,
  \<open>etag_of\<close> the entity tag it computes for a part body. \<open>max_offset\<close> is
  the largest offset that the file system of the source file accepts (its
  \<open>s_maxbytes\<close>: 17592186040320 on ext4 with blocks of 4 KiB, \<open>2^63 - 1\<close> on
  tmpfs).

  \<open>faults\<close> scripts what goes wrong: every call that leaves the process takes
  the next entry; \<open>Some c\<close> makes that call fail with code or message \<open>c\<close>, and
  the empty script means that nothing fails any more. Calls of the S3 client
  fail with an \<open>awserr.Error\<close>, as the SDK's service calls do; calls of package
  \<open>os\<close> fail with a plain error.
\<close>

record world =
  uploads :: "string \<Rightarrow> (int \<Rightarrow> (string \<times> byte list) option) option"
  objects :: "string \<Rightarrow> byte list option"
  issue_id :: string
  etag_of :: "byte list \<Rightarrow> string"
  s3_log :: "s3_call list"
  ckpt_dir :: dir_state
  ckpt_file :: "string option"
  ckpt_disk :: "string option"
  max_offset :: int
  faults :: "string option list"

definition next_fault :: "world \<Rightarrow> string option \<times> world" where
  "next_fault w = (case faults w of [] \<Rightarrow> (None, w) | f # fs \<Rightarrow> (f, w\<lparr>faults := fs\<rparr>))"

definition logged :: "s3_call \<Rightarrow> world \<Rightarrow> world" where
  "logged c w = w\<lparr>s3_log := s3_log w @ [c]\<rparr>"

subsection \<open>The S3 service behind the SDK\<close>

text \<open>
  \<open>CreateMultipartUpload\<close> opens an upload without parts under the id the
  service issues.
\<close>

definition CreateMultipartUpload :: "string \<Rightarrow> world \<Rightarrow> (error + string) \<times> world" where
  "CreateMultipartUpload k w =
     (case next_fault w of
        (Some c, w1) \<Rightarrow> (Inl (AwsError c), logged (CreateCall k (Inl (AwsError c))) w1)
      | (None, w1) \<Rightarrow>
          (Inr (issue_id w1),
           logged (CreateCall k (Inr (issue_id w1)))
             (w1\<lparr>uploads := (uploads w1)(issue_id w1 \<mapsto> Map.empty)\<rparr>)))"

text \<open>
  \<open>UploadPart\<close> stores the body under the part number, replacing an earlier
  body of that number, and answers with the body's entity tag. A nil upload
  id is refused by the SDK's parameter validation, an unknown one by the
  service.
\<close>

definition UploadPart ::
  "string option \<Rightarrow> int \<Rightarrow> byte list \<Rightarrow> world \<Rightarrow> (error + string) \<times> world" where
  "UploadPart uid n body w =
     (case next_fault w of
        (Some c, w1) \<Rightarrow>
          (Inl (AwsError c), logged (UploadPartCall uid n body (Inl (AwsError c))) w1)
      | (None, w1) \<Rightarrow>
          (case uid of
             None \<Rightarrow>
               (Inl (AwsError ''InvalidParameter''),
                logged (UploadPartCall uid n body (Inl (AwsError ''InvalidParameter''))) w1)
           | Some u \<Rightarrow>
               (case uploads w1 u of
                  None \<Rightarrow>
                    (Inl (AwsError ''NoSuchUpload''),
                     logged (UploadPartCall uid n body (Inl (AwsError ''NoSuchUpload''))) w1)
                | Some stored \<Rightarrow>
                    (Inr (etag_of w1 body),
                     logged (UploadPartCall uid n body (Inr (etag_of w1 body)))
                       (w1\<lparr>uploads := (uploads w1)(u \<mapsto> stored(n \<mapsto> (etag_of w1 body, body)))\<rparr>)))))"

text \<open>
  \<open>CompleteMultipartUpload\<close> looks every listed part up by its number, checks
  its entity tag, and stores the concatenation of the bodies in list order as
  the object; the upload is then gone. (The service's further checks on
  order and minimal part size are not modelled.)
\<close>

definition listed_body ::
  "(int \<Rightarrow> (string \<times> byte list) option) \<Rightarrow> string \<times> int \<Rightarrow> byte list option" where
  "listed_body stored p =
     (case stored (snd p) of
        None \<Rightarrow> None
      | Some (e, body) \<Rightarrow> if e = fst p then Some body else None)"

fun assemble ::
  "(int \<Rightarrow> (string \<times> byte list) option) \<Rightarrow> (string \<times> int) list \<Rightarrow> byte list option" where
  "assemble stored [] = Some []"
| "assemble stored (p # ps) =
     (case listed_body stored p of
        None \<Rightarrow> None
      | Some body \<Rightarrow>
          (case assemble stored ps of None \<Rightarrow> None | Some rest \<Rightarrow> Some (body @ rest)))"

definition CompleteMultipartUpload ::
  "string option \<Rightarrow> string \<Rightarrow> (string \<times> int) list \<Rightarrow> world \<Rightarrow> error option \<times> world" where
  "CompleteMultipartUpload uid k ps w =
     (case next_fault w of
        (Some c, w1) \<Rightarrow> (Some (AwsError c), logged (CompleteCall uid ps (Some (AwsError c))) w1)
      | (None, w1) \<Rightarrow>
          (case uid of
             None \<Rightarrow>
               (Some (AwsError ''InvalidParameter''),
                logged (CompleteCall uid ps (Some (AwsError ''InvalidParameter''))) w1)
           | Some u \<Rightarrow>
               (case uploads w1 u of
                  None \<Rightarrow>
                    (Some (AwsError ''NoSuchUpload''),
                     logged (CompleteCall uid ps (Some (AwsError ''NoSuchUpload''))) w1)
                | Some stored \<Rightarrow>
                    (case assemble stored ps of
                       None \<Rightarrow>
                         (Some (AwsError ''InvalidPart''),
                          logged (CompleteCall uid ps (Some (AwsError ''InvalidPart''))) w1)
                     | Some obj \<Rightarrow>
                         (None,
                          logged (CompleteCall uid ps None)
                            (w1\<lparr>uploads := (uploads w1)(u := None),
                                objects := (objects w1)(k \<mapsto> obj)\<rparr>))))))"

subsection \<open>The checkpoint file\<close>

text \<open>
  The handle's offset is at the end of the file whenever the code writes
  (after \<open>os.Create\<close>, after the scanner has read the file to its end), so a
  write appends. A failed write writes nothing. \<open>Sync\<close> makes the content
  durable.
\<close>

definition file_Write :: "string \<Rightarrow> world \<Rightarrow> error option \<times> world" where
  "file_Write s w =
     (case next_fault w of
        (Some c, w1) \<Rightarrow> (Some (PlainError c), w1)
      | (None, w1) \<Rightarrow>
          (case ckpt_file w1 of
             None \<Rightarrow> (Some (PlainError ''invalid argument''), w1)
           | Some content \<Rightarrow> (None, w1\<lparr>ckpt_file := Some (content @ s)\<rparr>)))"

definition file_Sync :: "world \<Rightarrow> error option \<times> world" where
  "file_Sync w =
     (case next_fault w of
        (Some c, w1) \<Rightarrow> (Some (PlainError c), w1)
      | (None, w1) \<Rightarrow> (None, w1\<lparr>ckpt_disk := ckpt_file w1\<rparr>))"

section \<open>Package checkpoint\<close>

subsection \<open>Formatting a part\<close>

text \<open>\<open>%d\<close> of an \<open>int64\<close>: decimal digits, a minus sign for a negative value.\<close>

definition digit_char :: "nat \<Rightarrow> char" where
  "digit_char d = ''0123456789'' ! d"

function dec :: "nat \<Rightarrow> string" where
  "dec n = (if n < 10 then [digit_char n] else dec (n div 10) @ [digit_char (n mod 10)])"
  by pat_completeness auto
termination
  by (relation "measure (\<lambda>n. n)") auto

declare dec.simps [simp del]

definition fmt_d :: "int \<Rightarrow> string" where
  "fmt_d i = (if i < 0 then CHR ''-'' # dec (nat (- i)) else dec (nat i))"

text \<open>\<open>fmt.Sprintf("%s,%d,%d\n", ETag, PartNumber, Size)\<close>\<close>

definition fmt_part :: "CompletedPart \<Rightarrow> string" where
  "fmt_part p =
     ETag p @ '','' @ fmt_d (PartNumber p) @ '','' @ fmt_d (Size p) @ [CHR 0x0A]"

subsection \<open>Save\<close>

text \<open>
  \<open>strings.TrimPrefix(s, "/")\<close>. In Save the part is appended to \<open>cp.parts\<close>
  before the record is written, and the result of \<open>Sync\<close> is dropped. (The
  service answers every stored part with an entity tag; a nil \<open>ETag\<close> is not
  modelled.)
\<close>

fun TrimPrefix :: "string \<Rightarrow> string" where
  "TrimPrefix (c # cs) = (if c = CHR ''/'' then cs else c # cs)"
| "TrimPrefix [] = []"

definition Save :: "byte list \<Rightarrow> LocalCheckpoint \<Rightarrow> world \<Rightarrow> error option \<times> LocalCheckpoint \<times> world" where
  "Save buf cp w =
     (let partNumber = int (length (parts cp)) + 1 in
      case UploadPart (uploadID cp) partNumber buf w of
        (Inl err, w1) \<Rightarrow> (Some err, cp, w1)
      | (Inr etag, w1) \<Rightarrow>
          (let completedPart =
                 \<lparr>ETag = etag, PartNumber = partNumber, Size = int (length buf)\<rparr>;
               cp1 = cp\<lparr>parts := parts cp @ [completedPart]\<rparr>
           in case file_Write (fmt_part completedPart) w1 of
                (Some err, w2) \<Rightarrow> (Some err, cp1, w2)
              | (None, w2) \<Rightarrow> (None, cp1, snd (file_Sync w2))))"

subsection \<open>Complete\<close>

definition toS3CompletedPart :: "CompletedPart \<Rightarrow> string \<times> int" where
  "toS3CompletedPart cp = (ETag cp, PartNumber cp)"

definition toS3CompletedParts :: "CompletedPart list \<Rightarrow> (string \<times> int) list" where
  "toS3CompletedParts cps = foldl (\<lambda>s3cps cp. s3cps @ [toS3CompletedPart cp]) [] cps"

text \<open>
  The type assertion \<open>err.(awserr.Error)\<close> succeeds on \<open>AwsError\<close> only; a nil
  error and an error of another type both take the \<open>else\<close> branch.
\<close>

definition Complete :: "LocalCheckpoint \<Rightarrow> world \<Rightarrow> error option \<times> world" where
  "Complete cp w =
     (case CompleteMultipartUpload (uploadID cp) (TrimPrefix (key cp))
             (toS3CompletedParts (parts cp)) w of
        (Some (AwsError code), w1) \<Rightarrow>
          if code = ''NoSuchUpload'' then (None, w1) else (Some (AwsError code), w1)
      | (Some (PlainError m), w1) \<Rightarrow> (None, w1)
      | (None, w1) \<Rightarrow> (None, w1))"

subsection \<open>Seek\<close>

text \<open>
  \<open>seekOffset += *part.Size\<close> is an \<open>int64\<close> addition and wraps around.
  \<open>file.Seek(offset, io.SeekStart)\<close> is the system call \<open>lseek\<close> on the
  source file, a regular file: it fails with \<open>EINVAL\<close> on a negative offset
  and on an offset above the largest one that the file system accepts, and
  then leaves the cursor where it was; any other offset, also one behind the
  end of the file, becomes the cursor.
\<close>

definition int64 :: "int \<Rightarrow> int" where
  "int64 x = (x + 2 ^ 63) mod 2 ^ 64 - 2 ^ 63"

definition seekOffset :: "CompletedPart list \<Rightarrow> int" where
  "seekOffset ps = foldl (\<lambda>off part. int64 (off + Size part)) 0 ps"

definition file_Seek :: "int \<Rightarrow> nat \<Rightarrow> world \<Rightarrow> error option \<times> nat" where
  "file_Seek off cursor w =
     (if off < 0 \<or> max_offset w < off then (Some (PlainError ''invalid argument''), cursor)
      else (None, nat off))"

definition Seek :: "LocalCheckpoint \<Rightarrow> nat \<Rightarrow> world \<Rightarrow> error option \<times> nat" where
  "Seek cp cursor w = file_Seek (seekOffset (parts cp)) cursor w"

subsection \<open>Reading a checkpoint\<close>

text \<open>\<open>strings.Split(s, sep)\<close> for a one-byte separator: never an empty list.\<close>

fun split_on :: "char \<Rightarrow> string \<Rightarrow> string list" where
  "split_on sep [] = [[]]"
| "split_on sep (c # cs) =
     (if c = sep then [] # split_on sep cs
      else (c # hd (split_on sep cs)) # tl (split_on sep cs))"

text \<open>
  \<open>bufio.ScanLines\<close>: the tokens are the lines without their end-of-line
  marker, a carriage return before the marker is dropped, and text after the
  last marker is a line of its own unless it is empty. A \<open>bufio.Scanner\<close>
  gives up on a line of \<open>MaxScanTokenSize\<close> bytes or more; that is not
  modelled, and the statements about a checkpoint that is read back are made
  for files whose lines are shorter.
\<close>

definition MaxScanTokenSize :: nat where
  "MaxScanTokenSize = 64 * 1024"

definition dropCR :: "string \<Rightarrow> string" where
  "dropCR l = (if l \<noteq> [] \<and> last l = CHR 0x0D then butlast l else l)"

definition ScanLines :: "string \<Rightarrow> string list" where
  "ScanLines content =
     (let ls = split_on (CHR 0x0A) content
      in map dropCR (if last ls = [] then butlast ls else ls))"

text \<open>
  \<open>strconv.ParseInt(s, 10, 64)\<close>: an optional sign, then at least one decimal
  digit and nothing else; a value outside \<open>int64\<close> is an error.
\<close>

definition digit_val :: "char \<Rightarrow> nat option" where
  "digit_val c = map_of (zip ''0123456789'' [0, 1, 2, 3, 4, 5, 6, 7, 8, 9]) c"

fun digits_val :: "nat \<Rightarrow> string \<Rightarrow> nat option" where
  "digits_val acc [] = Some acc"
| "digits_val acc (c # cs) =
     (case digit_val c of None \<Rightarrow> None | Some d \<Rightarrow> digits_val (10 * acc + d) cs)"

definition ParseUint :: "string \<Rightarrow> nat option" where
  "ParseUint s = (if s = [] then None else digits_val 0 s)"

definition ParseInt :: "string \<Rightarrow> int option" where
  "ParseInt s =
     (case s of
        [] \<Rightarrow> None
      | c # cs \<Rightarrow>
          (case ParseUint (if c = CHR ''+'' \<or> c = CHR ''-'' then cs else s) of
             None \<Rightarrow> None
           | Some un \<Rightarrow>
               if c = CHR ''-''
               then (if 2 ^ 63 < un then None else Some (- int un))
               else (if 2 ^ 63 \<le> un then None else Some (int un))))"

text \<open>
  One part line. \<open>line[1]\<close> and \<open>line[2]\<close> panic when the line has too few
  fields, \<open>util.Must\<close> panics when a number does not parse; fields after the
  third are ignored.
\<close>

definition parse_part :: "string \<Rightarrow> error + CompletedPart" where
  "parse_part l =
     (let line = split_on (CHR '','') l in
      if length line < 2 then Inl (PlainError ''index out of range'')
      else case ParseInt (line ! 1) of
             None \<Rightarrow> Inl (PlainError ''strconv.ParseInt'')
           | Some n \<Rightarrow>
               if length line < 3 then Inl (PlainError ''index out of range'')
               else case ParseInt (line ! 2) of
                      None \<Rightarrow> Inl (PlainError ''strconv.ParseInt'')
                    | Some s \<Rightarrow> Inr \<lparr>ETag = line ! 0, PartNumber = n, Size = s\<rparr>)"

fun parse_parts :: "CompletedPart list \<Rightarrow> string list \<Rightarrow> error + CompletedPart list" where
  "parse_parts acc [] = Inr acc"
| "parse_parts acc (l # ls) =
     (case parse_part l of Inl e \<Rightarrow> Inl e | Inr p \<Rightarrow> parse_parts (acc @ [p]) ls)"

subsection \<open>New\<close>

definition os_Stat_dir :: "world \<Rightarrow> (error + dir_state) \<times> world" where
  "os_Stat_dir w =
     (case next_fault w of
        (Some c, w1) \<Rightarrow> (Inl (PlainError c), w1)
      | (None, w1) \<Rightarrow> (Inr (ckpt_dir w1), w1))"

definition os_Mkdir :: "world \<Rightarrow> error option \<times> world" where
  "os_Mkdir w =
     (case next_fault w of
        (Some c, w1) \<Rightarrow> (Some (PlainError c), w1)
      | (None, w1) \<Rightarrow> (None, w1\<lparr>ckpt_dir := IsDir\<rparr>))"

text \<open>
  \<open>os.OpenFile(name, os.O_RDWR, 0755)\<close>: \<open>Inr False\<close> is the error
  \<open>os.ErrNotExist\<close>, \<open>Inl\<close> any other error.
\<close>

definition os_OpenFile :: "world \<Rightarrow> (error + bool) \<times> world" where
  "os_OpenFile w =
     (case next_fault w of
        (Some c, w1) \<Rightarrow> (Inl (PlainError c), w1)
      | (None, w1) \<Rightarrow> (Inr (ckpt_file w1 \<noteq> None), w1))"

definition os_Create :: "world \<Rightarrow> error option \<times> world" where
  "os_Create w =
     (case next_fault w of
        (Some c, w1) \<Rightarrow> (Some (PlainError c), w1)
      | (None, w1) \<Rightarrow> (None, w1\<lparr>ckpt_file := Some []\<rparr>))"

definition file_Stat_Size :: "world \<Rightarrow> (error + nat) \<times> world" where
  "file_Stat_Size w =
     (case next_fault w of
        (Some c, w1) \<Rightarrow> (Inl (PlainError c), w1)
      | (None, w1) \<Rightarrow> (Inr (length (case ckpt_file w1 of None \<Rightarrow> [] | Some s \<Rightarrow> s)), w1))"

text \<open>
  The part of \<open>New\<close> from \<open>os.OpenFile\<close> on. A missing file is created, a
  multipart upload is created and its id written and synced (the results of
  that write and sync are not looked at). An existing file is scanned when
  its size is not 0: the first line is the upload id (the empty string when
  there is no line), every further line is a part.
\<close>

definition New_open :: "LocalCheckpoint \<Rightarrow> world \<Rightarrow> LocalCheckpoint run \<times> world" where
  "New_open cp w =
     (case os_OpenFile w of
        (Inl err, w1) \<Rightarrow> (Fatal err, w1)
      | (Inr False, w1) \<Rightarrow>
          (case os_Create w1 of
             (Some err, w2) \<Rightarrow> (Panic err, w2)
           | (None, w2) \<Rightarrow>
               (case CreateMultipartUpload (TrimPrefix (key cp)) w2 of
                  (Inl err, w3) \<Rightarrow> (Fatal err, w3)
                | (Inr uid, w3) \<Rightarrow>
                    (Done (cp\<lparr>uploadID := Some uid\<rparr>),
                     snd (file_Sync (snd (file_Write (uid @ [CHR 0x0A]) w3))))))
      | (Inr True, w1) \<Rightarrow>
          (case file_Stat_Size w1 of
             (Inl err, w2) \<Rightarrow> (Panic err, w2)
           | (Inr sz, w2) \<Rightarrow>
               if sz \<noteq> 0
               then (let ls = ScanLines (case ckpt_file w2 of None \<Rightarrow> [] | Some s \<Rightarrow> s)
                     in case parse_parts (parts cp) (tl ls) of
                          Inl err \<Rightarrow> (Panic err, w2)
                        | Inr ps \<Rightarrow>
                            (Done (cp\<lparr>uploadID := Some (case ls of [] \<Rightarrow> [] | l # _ \<Rightarrow> l),
                                      parts := ps\<rparr>), w2))
               else (Done cp, w2)))"

text \<open>\<open>session.NewSession()\<close>, on whose error \<open>session.Must\<close> panics.\<close>

definition session_NewSession :: "world \<Rightarrow> error option \<times> world" where
  "session_NewSession w =
     (case next_fault w of
        (Some c, w1) \<Rightarrow> (Some (AwsError c), w1)
      | (None, w1) \<Rightarrow> (None, w1))"

definition New :: "string \<Rightarrow> string \<Rightarrow> world \<Rightarrow> LocalCheckpoint run \<times> world" where
  "New bucketName fileName w =
     (let cp = \<lparr>uploadID = None, parts = [], bucket = bucketName, key = fileName\<rparr> in
      case session_NewSession w of
        (Some err, w0) \<Rightarrow> (Panic err, w0)
      | (None, w0) \<Rightarrow>
          (case os_Stat_dir w0 of
             (Inl err, w1) \<Rightarrow> (Fatal err, w1)
           | (Inr NoDir, w1) \<Rightarrow>
               (case os_Mkdir w1 of
                  (Some err, w2) \<Rightarrow> (Fatal err, w2)
                | (None, w2) \<Rightarrow> New_open cp w2)
           | (Inr NotDir, w1) \<Rightarrow> (Fatal (PlainError ''.checkpoints is not a directory''), w1)
           | (Inr IsDir, w1) \<Rightarrow> New_open cp w1))"

section \<open>The driver\<close>

text \<open>
  \<open>file.Read(buffer)\<close> on the source file with content \<open>F\<close> and cursor
  \<open>cursor\<close>: the bytes from the cursor on, at most as many as the buffer
  holds and at most \<open>maxRW\<close> (one call of \<open>Read\<close> on an \<open>os.File\<close> cuts its
  buffer to \<open>1 << 30\<close> bytes), are copied to the front of the zeroed buffer;
  the result is their number and the buffer. At the end of the file that
  number is 0 (with \<open>io.EOF\<close>, which the driver does not treat as an error).
\<close>

definition maxRW :: nat where
  "maxRW = 2 ^ 30"

definition file_Read :: "nat \<Rightarrow> byte list \<Rightarrow> nat \<Rightarrow> world \<Rightarrow> (error + nat \<times> byte list) \<times> world" where
  "file_Read len F cursor w =
     (case next_fault w of
        (Some c, w1) \<Rightarrow> (Inl (PlainError c), w1)
      | (None, w1) \<Rightarrow>
          (let got = take (min len maxRW) (drop cursor F)
           in (Inr (length got, got @ replicate (len - length got) 0), w1)))"

text \<open>How the loop of \<open>uploadFile\<close> is left.\<close>

datatype loop_end = Break | Return error | Exit error | Panicked error

datatype step = Next nat LocalCheckpoint world | Stop loop_end LocalCheckpoint world

text \<open>
  One round of the loop: allocate the buffer (a negative length panics),
  read, leave the loop when nothing was read, save the WHOLE buffer
  (\<open>local.Save(&buffer)\<close>), and end the process when Save fails.
\<close>

definition loopBody :: "int \<Rightarrow> byte list \<Rightarrow> nat \<Rightarrow> LocalCheckpoint \<Rightarrow> world \<Rightarrow> step" where
  "loopBody partSize F cursor cp w =
     (if partSize < 0 then Stop (Panicked (PlainError ''makeslice: len out of range'')) cp w
      else case file_Read (nat partSize) F cursor w of
             (Inl err, w1) \<Rightarrow> Stop (Return err) cp w1
           | (Inr (n, buffer), w1) \<Rightarrow>
               if n = 0 then Stop Break cp w1
               else (case Save buffer cp w1 of
                       (Some err, cp1, w2) \<Rightarrow> Stop (Exit err) cp1 w2
                     | (None, cp1, w2) \<Rightarrow> Next (cursor + n) cp1 w2))"

lemma loopBody_Next_cursor:
  "loopBody partSize F cursor cp w = Next cursor' cp' w' \<Longrightarrow>
     cursor < cursor' \<and> cursor' \<le> length F"
  by (auto simp: loopBody_def file_Read_def Let_def
           split: if_splits prod.splits sum.splits option.splits)

function uploadLoop ::
  "int \<Rightarrow> byte list \<Rightarrow> nat \<Rightarrow> LocalCheckpoint \<Rightarrow> world \<Rightarrow> loop_end \<times> LocalCheckpoint \<times> world" where
  "uploadLoop partSize F cursor cp w =
     (case loopBody partSize F cursor cp w of
        Stop e cp' w' \<Rightarrow> (e, cp', w')
      | Next cursor' cp' w' \<Rightarrow> uploadLoop partSize F cursor' cp' w')"
  by pat_completeness auto
termination
proof (relation "measure (\<lambda>(partSize, F, cursor, cp, w). length F - cursor)")
  show "wf (measure (\<lambda>(partSize, F, cursor, cp, w). length F - cursor))" by simp
next
  fix partSize :: int and F :: "byte list" and cursor cp w cursor' cp' w'
  assume "loopBody partSize F cursor cp w = Next cursor' cp' w'"
  from loopBody_Next_cursor [OF this]
  have "length F - cursor' < length F - cursor" by arith
  then show "((partSize, F, cursor', cp', w'), (partSize, F, cursor, cp, w))
          \<in> measure (\<lambda>(partSize, F, cursor, cp, w). length F - cursor)"
    by simp
qed

declare uploadLoop.simps [simp del]

definition os_Open :: "world \<Rightarrow> error option \<times> world" where
  "os_Open w =
     (case next_fault w of
        (Some c, w1) \<Rightarrow> (Some (PlainError c), w1)
      | (None, w1) \<Rightarrow> (None, w1))"

text \<open>
  \<open>uploadFile\<close>. \<open>path\<close> is \<open>filepath.Join(dirName, fileName)\<close> and \<open>F\<close> the
  content of the file there; \<open>partSize\<close> is the flag \<open>-partsize\<close>. The result
  of \<open>local.Seek(file)\<close> is dropped, as in the source.
\<close>

definition uploadFile ::
  "string \<Rightarrow> string \<Rightarrow> int \<Rightarrow> byte list \<Rightarrow> world \<Rightarrow> error option run \<times> world" where
  "uploadFile bucketName path partSize F w =
     (case os_Open w of
        (Some err, w0) \<Rightarrow> (Done (Some err), w0)
      | (None, w0) \<Rightarrow>
          (case New bucketName path w0 of
             (Fatal err, w1) \<Rightarrow> (Fatal err, w1)
           | (Panic err, w1) \<Rightarrow> (Panic err, w1)
           | (Done local, w1) \<Rightarrow>
               (case uploadLoop partSize F (snd (Seek local 0 w1)) local w1 of
                  (Break, cp2, w2) \<Rightarrow>
                    (case Complete cp2 w2 of (r, w3) \<Rightarrow> (Done r, w3))
                | (Return err, cp2, w2) \<Rightarrow> (Done (Some err), w2)
                | (Exit err, cp2, w2) \<Rightarrow> (Fatal err, w2)
                | (Panicked err, cp2, w2) \<Rightarrow> (Panic err, w2))))"

subsection \<open>A killed process\<close>

text \<open>
  The process can be killed at any moment. What it leaves behind is the S3
  service as it is and the checkpoint file as far as it is on stable storage.
\<close>

definition crash :: "world \<Rightarrow> world" where
  "crash w = w\<lparr>ckpt_file := ckpt_disk w\<rparr>"

text \<open>
  The state of the loop after at most \<open>k\<close> rounds (fewer when the loop is left
  before).
\<close>

fun rounds ::
  "nat \<Rightarrow> int \<Rightarrow> byte list \<Rightarrow> nat \<Rightarrow> LocalCheckpoint \<Rightarrow> world \<Rightarrow> nat \<times> LocalCheckpoint \<times> world" where
  "rounds 0 partSize F cursor cp w = (cursor, cp, w)"
| "rounds (Suc k) partSize F cursor cp w =
     (case loopBody partSize F cursor cp w of
        Stop e cp' w' \<Rightarrow> (cursor, cp', w')
      | Next cursor' cp' w' \<Rightarrow> rounds k partSize F cursor' cp' w')"

text \<open>
  \<open>killed k False\<close>: the world left behind by a run of \<open>uploadFile\<close> that is
  killed after \<open>k\<close> rounds of its loop. \<open>killed k True\<close>: the run is killed in
  the next round, in \<open>Save\<close>, when the part (if the file has one more) has
  reached the service and its record has not reached the checkpoint file.
\<close>

definition killed ::
  "nat \<Rightarrow> bool \<Rightarrow> string \<Rightarrow> string \<Rightarrow> int \<Rightarrow> byte list \<Rightarrow> world \<Rightarrow> world" where
  "killed k inSave bucketName path partSize F w =
     (case New bucketName path (snd (os_Open w)) of
        (Done local, w1) \<Rightarrow>
          (case rounds k partSize F (snd (Seek local 0 w1)) local w1 of
             (cursor, cp, w2) \<Rightarrow>
               if inSave
               then (case file_Read (nat partSize) F cursor w2 of
                       (Inr (n, buffer), w3) \<Rightarrow>
                         if n = 0 then crash w3
                         else crash (snd (UploadPart (uploadID cp)
                                 (int (length (parts cp)) + 1) buffer w3))
                     | (Inl err, w3) \<Rightarrow> crash w3)
               else crash w2)
      | (r, w1) \<Rightarrow> crash w1)"

text \<open>
  The world left behind by a run of \<open>uploadFile\<close> that has come to its end
  (or is killed after Complete).
\<close>

definition completed :: "string \<Rightarrow> string \<Rightarrow> int \<Rightarrow> byte list \<Rightarrow> world \<Rightarrow> world" where
  "completed bucketName path partSize F w = crash (snd (uploadFile bucketName path partSize F w))"

section \<open>The orchestrator\<close>

text \<open>
  A directory entry: its name, whether it is a directory, and for a file its
  content and the world of its upload. Tasks share nothing.
\<close>

record entry =
  name :: string
  IsDirectory :: bool
  content :: "byte list"
  env :: world

text \<open>
  The body of the goroutine that \<open>main\<close> starts for a file:
  \<open>Error.Panic(err)\<close> when \<open>uploadFile\<close> returns an error.
\<close>

definition goroutine :: "string \<Rightarrow> string \<Rightarrow> int \<Rightarrow> entry \<Rightarrow> unit run" where
  "goroutine bucketName dirName partSize e =
     (case fst (uploadFile bucketName (dirName @ ''/'' @ name e) partSize (content e) (env e)) of
        Done None \<Rightarrow> Done ()
      | Done (Some err) \<Rightarrow> Panic err
      | Fatal err \<Rightarrow> Fatal err
      | Panic err \<Rightarrow> Panic err)"

text \<open>
  How the process ends: \<open>Finished names\<close> when every goroutine has returned
  and \<open>main\<close> returns after \<open>wg.Wait()\<close> and its report of the total time;
  \<open>Died n err done cut\<close> when the goroutine of file \<open>n\<close> ends the process with
  \<open>err\<close> (the exit of \<open>log.Fatal\<close>, or the panic, which the runtime lets win
  over a \<open>main\<close> that returns meanwhile) after the tasks \<open>done\<close> had finished,
  the tasks \<open>cut\<close> being cut off before their end. \<open>Usage\<close> is the exit after
  \<open>flag.Usage()\<close>.
\<close>

datatype process_end =
    Finished "string list"
  | Died string error "string list" "string list"
  | Usage

text \<open>
  The goroutines in the order in which they reach their end. A panic in a
  goroutine and \<open>os.Exit\<close> both end the whole process at once.
\<close>

fun goroutines ::
  "string \<Rightarrow> string \<Rightarrow> int \<Rightarrow> string list \<Rightarrow> entry list \<Rightarrow> process_end" where
  "goroutines bucketName dirName partSize done [] = Finished done"
| "goroutines bucketName dirName partSize done (e # es) =
     (case goroutine bucketName dirName partSize e of
        Done u \<Rightarrow> goroutines bucketName dirName partSize (done @ [name e]) es
      | Fatal err \<Rightarrow> Died (name e) err done (map name es)
      | Panic err \<Rightarrow> Died (name e) err done (map name es))"

text \<open>
  \<open>main\<close>: \<open>files\<close> is what \<open>os.ReadDir\<close> returns, \<open>sched\<close> the order in which
  the scheduler lets the started goroutines reach their end, as positions in
  the list of started goroutines.
\<close>

definition main ::
  "string \<Rightarrow> string \<Rightarrow> int \<Rightarrow> error + entry list \<Rightarrow> nat list \<Rightarrow> process_end" where
  "main bucketName dirName partSize files sched =
     (if bucketName = [] \<or> dirName = [] then Usage
      else case files of
             Inl err \<Rightarrow> Died [] err [] []
           | Inr es \<Rightarrow>
               (let started = filter (\<lambda>file. \<not> IsDirectory file) es
                in goroutines bucketName dirName partSize []
                     (map (\<lambda>i. started ! i) (filter (\<lambda>i. i < length started) sched))))"

text \<open>The error with which a goroutine ends the process, if it does.\<close>

definition failure :: "unit run \<Rightarrow> error option" where
  "failure r = (case r of Done u \<Rightarrow> None | Fatal err \<Rightarrow> Some err | Panic err \<Rightarrow> Some err)"

text \<open>The goroutines that \<open>main\<close> starts, in the order \<open>sched\<close>.\<close>

definition scheduled :: "entry list \<Rightarrow> nat list \<Rightarrow> entry list" where
  "scheduled es sched =
     map (\<lambda>i. filter (\<lambda>file. \<not> IsDirectory file) es ! i)
       (filter (\<lambda>i. i < length (filter (\<lambda>file. \<not> IsDirectory file) es)) sched)"

section \<open>Sequences of calls\<close>

text \<open>
  \<open>saved cp0 w0 cp w\<close>: the checkpoint \<open>cp\<close> in world \<open>w\<close> is reached from
  \<open>cp0\<close> in \<open>w0\<close> by calls of Save that all return nil.
\<close>

inductive saved :: "LocalCheckpoint \<Rightarrow> world \<Rightarrow> LocalCheckpoint \<Rightarrow> world \<Rightarrow> bool"
  for cp0 :: LocalCheckpoint and w0 :: world where
  saved_none: "saved cp0 w0 cp0 w0"
| saved_more: "saved cp0 w0 cp w \<Longrightarrow> Save buf cp w = (None, cp', w') \<Longrightarrow> saved cp0 w0 cp' w'"

text \<open>The fault that the script holds for the \<open>n\<close>-th call from now (counted from 0).\<close>

definition nth_fault :: "nat \<Rightarrow> world \<Rightarrow> string option" where
  "nth_fault n w = (if n < length (faults w) then faults w ! n else None)"

text \<open>The parts that the logged UploadPart calls have stored, in the order of the calls.\<close>

fun uploaded :: "s3_call list \<Rightarrow> (string \<times> int) list" where
  "uploaded [] = []"
| "uploaded (UploadPartCall uid n body (Inr etag) # cs) = (etag, n) # uploaded cs"
| "uploaded (c # cs) = uploaded cs"

text \<open>
  What a run of the loop without failures does, in closed form, for the
  statements below: the buffers that the loop hands to Save when it reads
  \<open>data\<close> with buffers of length \<open>n\<close> (every read takes \<open>min n maxRW\<close>
  bytes, or what is left of \<open>data\<close>, and the rest of the buffer is zero
  bytes), the parts that Save records for a list of buffers when \<open>m\<close> parts
  are recorded already, the parts that the service then holds, and the
  requests it has seen.
\<close>

function buffers :: "nat \<Rightarrow> byte list \<Rightarrow> byte list list" where
  "buffers n data =
     (if n = 0 \<or> data = [] then []
      else (take (min n maxRW) data @ replicate (n - length (take (min n maxRW) data)) 0)
             # buffers n (drop (min n maxRW) data))"
  by pat_completeness auto
termination
  by (relation "measure (\<lambda>(n, data). length data)") (auto simp: maxRW_def)

declare buffers.simps [simp del]

fun partsOf :: "(byte list \<Rightarrow> string) \<Rightarrow> nat \<Rightarrow> byte list list \<Rightarrow> CompletedPart list" where
  "partsOf et m [] = []"
| "partsOf et m (b # bs) =
     \<lparr>ETag = et b, PartNumber = int m + 1, Size = int (length b)\<rparr> # partsOf et (Suc m) bs"

fun stored_after ::
  "(byte list \<Rightarrow> string) \<Rightarrow> nat \<Rightarrow> byte list list \<Rightarrow> (int \<Rightarrow> (string \<times> byte list) option)
     \<Rightarrow> (int \<Rightarrow> (string \<times> byte list) option)" where
  "stored_after et m [] st = st"
| "stored_after et m (b # bs) st = stored_after et (Suc m) bs (st(int m + 1 \<mapsto> (et b, b)))"

fun callsOf :: "(byte list \<Rightarrow> string) \<Rightarrow> string \<Rightarrow> nat \<Rightarrow> byte list list \<Rightarrow> s3_call list" where
  "callsOf et u m [] = []"
| "callsOf et u m (b # bs) =
     UploadPartCall (Some u) (int m + 1) b (Inr (et b)) # callsOf et u (Suc m) bs"

text \<open>
  A part line of the checkpoint file without its end-of-line marker, and the
  parts whose line reads back as the same part: no comma or line feed in the
  entity tag, numbers that are not negative and fit \<open>int64\<close>, and a line
  that the scanner takes as one token. \<open>tag_ok\<close> are the entity tags that
  give such lines: with two commas and two numbers of at most 19 digits the
  line stays below the limit.
\<close>

definition part_line :: "CompletedPart \<Rightarrow> string" where
  "part_line p = ETag p @ '','' @ fmt_d (PartNumber p) @ '','' @ fmt_d (Size p)"

definition wf_part :: "CompletedPart \<Rightarrow> bool" where
  "wf_part p \<longleftrightarrow>
     CHR '','' \<notin> set (ETag p) \<and> CHR 0x0A \<notin> set (ETag p)
     \<and> 0 \<le> PartNumber p \<and> PartNumber p < 2 ^ 63 \<and> 0 \<le> Size p \<and> Size p < 2 ^ 63
     \<and> length (part_line p) < MaxScanTokenSize"

definition tag_ok :: "string \<Rightarrow> bool" where
  "tag_ok t \<longleftrightarrow>
     CHR '','' \<notin> set t \<and> CHR 0x0A \<notin> set t \<and> length t + 40 < MaxScanTokenSize"

section \<open>Example worlds\<close>

definition demo_etag :: "byte list \<Rightarrow> string" where
  "demo_etag body = ''e'' @ dec (sum_list (map unat body))"

definition demo_world :: world where
  "demo_world =
     \<lparr>uploads = Map.empty, objects = Map.empty, issue_id = ''up1'', etag_of = demo_etag,
      s3_log = [], ckpt_dir = IsDir, ckpt_file = None, ckpt_disk = None,
      max_offset = 17592186040320, faults = []\<rparr>"

definition demo_cp :: LocalCheckpoint where
  "demo_cp = \<lparr>uploadID = Some ''gone'', parts = [], bucket = ''b'', key = ''d/f''\<rparr>"

text \<open>An open upload without parts whose id is the one line of the checkpoint file.\<close>

definition demo_open :: world where
  "demo_open =
     demo_world\<lparr>uploads := [''up1'' \<mapsto> Map.empty],
                ckpt_file := Some (''up1'' @ [CHR 0x0A]),
                ckpt_disk := Some (''up1'' @ [CHR 0x0A])\<rparr>"

text \<open>The checkpoint file exists and is empty.\<close>

definition demo_empty :: world where
  "demo_empty = demo_world\<lparr>ckpt_file := Some [], ckpt_disk := Some []\<rparr>"

text \<open>
  A run was killed after its first part: the upload holds part 1 of the file
  \<open>[1, 2, 3, 4, 5]\<close> read with part size 2, and the checkpoint file has the
  id line and one part line.
\<close>

definition demo_resume :: world where
  "demo_resume =
     demo_world\<lparr>uploads := [''up1'' \<mapsto> [1 \<mapsto> (''e3'', [1, 2])]],
                ckpt_file := Some (''up1'' @ [CHR 0x0A] @ ''e3,1,2'' @ [CHR 0x0A]),
                ckpt_disk := Some (''up1'' @ [CHR 0x0A] @ ''e3,1,2'' @ [CHR 0x0A])\<rparr>"

definition demo_cp_resumed :: LocalCheckpoint where
  "demo_cp_resumed =
     \<lparr>uploadID = Some ''up1'', parts = [\<lparr>ETag = ''e3'', PartNumber = 1, Size = 2\<rparr>],
      bucket = ''b'', key = ''d/f''\<rparr>"

text \<open>
  A directory with two files: \<open>bad\<close> cannot be opened, \<open>good\<close> has nothing
  in its way. In \<open>demo_dir2\<close> the file \<open>bad\<close> has an empty checkpoint file
  instead, so that its first Save fails.
\<close>

definition demo_dir :: "entry list" where
  "demo_dir =
     [\<lparr>name = ''bad'', IsDirectory = False, content = [1, 2, 3],
        env = demo_world\<lparr>faults := [Some ''permission denied'']\<rparr>\<rparr>,
      \<lparr>name = ''good'', IsDirectory = False, content = [4, 5, 6], env = demo_world\<rparr>]"

definition demo_dir2 :: "entry list" where
  "demo_dir2 =
     [\<lparr>name = ''bad'', IsDirectory = False, content = [1, 2, 3], env = demo_empty\<rparr>,
      \<lparr>name = ''good'', IsDirectory = False, content = [4, 5, 6], env = demo_world\<rparr>]"

definition demo_cp1 :: LocalCheckpoint where
  "demo_cp1 = \<lparr>uploadID = Some ''up1'', parts = [], bucket = ''b'', key = ''d/f''\<rparr>"

section \<open>Properties of New\<close>

lemma os_Stat_dir_eq: "faults w = [] \<Longrightarrow> os_Stat_dir w = (Inr (ckpt_dir w), w)"
  by (simp add: os_Stat_dir_def next_fault_def)

lemma New_open_missing_parts:
  "ckpt_file w = None \<Longrightarrow> New_open cp w = (Done cp', w') \<Longrightarrow>
     parts cp' = parts cp \<and> (\<exists>h. ckpt_file w' = Some h)"
  by (auto simp: New_open_def os_OpenFile_def os_Create_def CreateMultipartUpload_def
        file_Write_def file_Sync_def next_fault_def logged_def
        split: list.splits option.splits prod.splits sum.splits bool.splits if_splits)

lemma New_missing_parts:
  assumes "ckpt_file w = None" and "New b f w = (Done cp', w')"
  shows "parts cp' = [] \<and> (\<exists>h. ckpt_file w' = Some h)"
proof -
  let ?cp = "\<lparr>uploadID = None, parts = [], bucket = b, key = f\<rparr>"
  from assms(2) obtain w1 where o: "New_open ?cp w1 = (Done cp', w')" and f: "ckpt_file w1 = ckpt_file w"
    by (auto simp: New_def session_NewSession_def Let_def os_Stat_dir_def os_Mkdir_def next_fault_def
          split: list.splits option.splits prod.splits sum.splits dir_state.splits)
  from New_open_missing_parts [OF _ o] f assms(1) show ?thesis by simp
qed

text \<open>
  C3 fails on the code where it speaks of an empty checkpoint file. New on an
  existing empty file scans nothing and creates nothing: the world is
  unchanged (no request has been sent, nothing is written), and the
  checkpoint it returns has no upload id. The first Save of the driver then
  fails, and the driver ends the process. New itself leaves such a file
  behind when its CreateMultipartUpload fails after \<open>os.Create\<close>.
\<close>

theorem New_empty_file_creates_no_session:
  "New ''b'' ''d/f'' demo_empty
     = (Done \<lparr>uploadID = None, parts = [], bucket = ''b'', key = ''d/f''\<rparr>, demo_empty)
   \<and> s3_log demo_empty = [] \<and> ckpt_file demo_empty = Some []
   \<and> fst (uploadFile ''b'' ''d/f'' 2 [1, 2, 3] demo_empty) = Fatal (AwsError ''InvalidParameter'')
   \<and> fst (New ''b'' ''d/f'' (demo_world\<lparr>faults := [None, None, None, None, Some ''RequestError'']\<rparr>))
       = Fatal (AwsError ''RequestError'')
   \<and> ckpt_file (snd (New ''b'' ''d/f''
         (demo_world\<lparr>faults := [None, None, None, None, Some ''RequestError'']\<rparr>))) = Some []"
  by (simp add: os_Create_def CreateMultipartUpload_def New_def session_NewSession_def New_open_def Let_def os_Stat_dir_def os_OpenFile_def file_Stat_Size_def
        next_fault_def demo_empty_def demo_world_def uploadFile_def os_Open_def Seek_def
        seekOffset_def file_Seek_def uploadLoop.simps loopBody_def file_Read_def maxRW_def
        Save_def UploadPart_def logged_def)

section \<open>Properties of Save\<close>

lemma Save_None:
  assumes "Save buf cp w = (None, cp', w')"
  shows "\<exists>etag w1 w2.
           UploadPart (uploadID cp) (int (length (parts cp)) + 1) buf w = (Inr etag, w1)
         \<and> file_Write (fmt_part \<lparr>ETag = etag, PartNumber = int (length (parts cp)) + 1,
                                  Size = int (length buf)\<rparr>) w1 = (None, w2)
         \<and> w' = snd (file_Sync w2)
         \<and> cp' = cp\<lparr>parts := parts cp @ [\<lparr>ETag = etag, PartNumber = int (length (parts cp)) + 1,
                                           Size = int (length buf)\<rparr>]\<rparr>"
  using assms
  by (auto simp: Save_def Let_def split: prod.splits sum.splits option.splits)

lemma file_Write_None:
  "file_Write s w = (None, w2) \<Longrightarrow>
     \<exists>c. ckpt_file w = Some c \<and> ckpt_file w2 = Some (c @ s) \<and> ckpt_disk w2 = ckpt_disk w
        \<and> nth_fault 0 w = None \<and> faults w2 = drop 1 (faults w)"
  by (auto simp: file_Write_def next_fault_def nth_fault_def split: list.splits option.splits)

lemma file_Sync_file: "ckpt_file (snd (file_Sync w)) = ckpt_file w"
  by (auto simp: file_Sync_def next_fault_def split: list.splits option.splits)

lemma file_Sync_faults: "faults (snd (file_Sync w)) = drop 1 (faults w)"
  by (auto simp: file_Sync_def next_fault_def split: list.splits option.splits)

lemma file_Sync_disk:
  "nth_fault 0 w = None \<Longrightarrow> ckpt_disk (snd (file_Sync w)) = ckpt_file w"
  by (auto simp: file_Sync_def next_fault_def nth_fault_def split: list.splits option.splits)

lemma UploadPart_faults:
  "UploadPart uid n body w = (r, w1) \<Longrightarrow> faults w1 = drop 1 (faults w)"
  by (auto simp: UploadPart_def next_fault_def logged_def split: list.splits option.splits)

lemma UploadPart_files:
  "UploadPart uid n body w = (r, w1) \<Longrightarrow>
     ckpt_file w1 = ckpt_file w \<and> ckpt_disk w1 = ckpt_disk w \<and> ckpt_dir w1 = ckpt_dir w"
  by (auto simp: UploadPart_def next_fault_def logged_def split: list.splits option.splits)

lemma nth_fault_drop: "nth_fault n (w\<lparr>faults := drop k (faults w)\<rparr>) = nth_fault (n + k) w"
  by (auto simp: nth_fault_def add.commute)

lemma nth_fault_cong: "faults w1 = drop k (faults w) \<Longrightarrow> nth_fault n w1 = nth_fault (n + k) w"
  by (auto simp: nth_fault_def add.commute)

text \<open>
  C10. When the remote UploadPart call returns an error, Save returns that
  error and nothing of the checkpoint changes: the in-memory checkpoint is the
  one before (no part appended), the checkpoint file has neither in the
  process's view nor on stable storage a new record, the next Save uses the
  same part number, and the resume offset is the same.
\<close>

theorem Save_upload_error_keeps_checkpoint:
  assumes "UploadPart (uploadID cp) (int (length (parts cp)) + 1) buf w = (Inl err, w1)"
  shows "Save buf cp w = (Some err, cp, w1)
       \<and> ckpt_file w1 = ckpt_file w \<and> ckpt_disk w1 = ckpt_disk w
       \<and> int (length (parts (fst (snd (Save buf cp w))))) + 1 = int (length (parts cp)) + 1
       \<and> seekOffset (parts (fst (snd (Save buf cp w)))) = seekOffset (parts cp)"
  using assms UploadPart_files [OF assms] by (simp add: Save_def)

theorem Save_upload_error_keeps_checkpoint_witness:
  "Save [1, 2] demo_cp demo_world =
     (Some (AwsError ''NoSuchUpload''), demo_cp,
      logged (UploadPartCall (Some ''gone'') 1 [1, 2] (Inl (AwsError ''NoSuchUpload''))) demo_world)"
proof -
  have h: "UploadPart (uploadID demo_cp) (int (length (parts demo_cp)) + 1) [1, 2] demo_world =
      (Inl (AwsError ''NoSuchUpload''),
       logged (UploadPartCall (Some ''gone'') 1 [1, 2] (Inl (AwsError ''NoSuchUpload''))) demo_world)"
    by (simp add: UploadPart_def next_fault_def demo_world_def demo_cp_def)
  from Save_upload_error_keeps_checkpoint [OF h] show ?thesis by simp
qed

text \<open>
  C6, as the code has it. A call of Save that returns nil has appended the
  part's record (entity tag, part number, size) to the checkpoint file and
  has made three calls, the last of them Sync, before it returns; the record
  is on stable storage when that Sync does not fail (Save does not look at
  the result of Sync). After such a call the part is the last one of the
  in-memory list. Whenever the in-memory list has changed, UploadPart has
  succeeded.
\<close>

theorem Save_success_records_part:
  assumes "Save buf cp w = (r, cp', w')"
  shows "(r = None \<longrightarrow>
           (\<exists>etag c.
              parts cp' = parts cp @ [\<lparr>ETag = etag, PartNumber = int (length (parts cp)) + 1,
                                        Size = int (length buf)\<rparr>]
            \<and> ckpt_file w = Some c
            \<and> ckpt_file w' = Some (c @ fmt_part \<lparr>ETag = etag,
                                     PartNumber = int (length (parts cp)) + 1,
                                     Size = int (length buf)\<rparr>)
            \<and> faults w' = drop 3 (faults w)
            \<and> (nth_fault 2 w = None \<longrightarrow> ckpt_disk w' = ckpt_file w')))
       \<and> (parts cp' \<noteq> parts cp \<longrightarrow>
           (\<exists>etag w1. UploadPart (uploadID cp) (int (length (parts cp)) + 1) buf w = (Inr etag, w1)))"
proof (intro conjI impI)
  assume "r = None"
  with assms have s: "Save buf cp w = (None, cp', w')" by simp
  from Save_None [OF s] obtain etag w1 w2 where
    up: "UploadPart (uploadID cp) (int (length (parts cp)) + 1) buf w = (Inr etag, w1)" and
    wr: "file_Write (fmt_part \<lparr>ETag = etag, PartNumber = int (length (parts cp)) + 1,
                                  Size = int (length buf)\<rparr>) w1 = (None, w2)" and
    w': "w' = snd (file_Sync w2)" and
    cp': "cp' = cp\<lparr>parts := parts cp @ [\<lparr>ETag = etag, PartNumber = int (length (parts cp)) + 1,
                                           Size = int (length buf)\<rparr>]\<rparr>"
    by blast
  from file_Write_None [OF wr] obtain c where
    c: "ckpt_file w1 = Some c"
       "ckpt_file w2 = Some (c @ fmt_part \<lparr>ETag = etag, PartNumber = int (length (parts cp)) + 1,
                                  Size = int (length buf)\<rparr>)"
       "faults w2 = drop 1 (faults w1)"
    by blast
  have f1: "faults w1 = drop 1 (faults w)" by (rule UploadPart_faults [OF up])
  have f2: "faults w2 = drop 2 (faults w)" using c(3) f1 by (simp add: numeral_2_eq_2)
  have f3: "faults w' = drop 3 (faults w)"
    using f2 by (simp add: w' file_Sync_faults numeral_2_eq_2 numeral_3_eq_3)
  have d: "nth_fault 2 w = None \<longrightarrow> ckpt_disk w' = ckpt_file w'"
  proof
    assume "nth_fault 2 w = None"
    then have "nth_fault 0 w2 = None" using nth_fault_cong [OF f2, of 0] by (simp add: numeral_2_eq_2)
    then show "ckpt_disk w' = ckpt_file w'" by (simp add: w' file_Sync_disk file_Sync_file)
  qed
  show "\<exists>etag c.
              parts cp' = parts cp @ [\<lparr>ETag = etag, PartNumber = int (length (parts cp)) + 1,
                                        Size = int (length buf)\<rparr>]
            \<and> ckpt_file w = Some c
            \<and> ckpt_file w' = Some (c @ fmt_part \<lparr>ETag = etag,
                                     PartNumber = int (length (parts cp)) + 1,
                                     Size = int (length buf)\<rparr>)
            \<and> faults w' = drop 3 (faults w)
            \<and> (nth_fault 2 w = None \<longrightarrow> ckpt_disk w' = ckpt_file w')"
    using c(1,2) UploadPart_files [OF up] f3 d
    by (intro exI [of _ etag] exI [of _ c]) (simp add: cp' w' file_Sync_file)
next
  assume "parts cp' \<noteq> parts cp"
  with assms show "\<exists>etag w1. UploadPart (uploadID cp) (int (length (parts cp)) + 1) buf w = (Inr etag, w1)"
    by (auto simp: Save_def Let_def split: prod.splits sum.splits option.splits)
qed


theorem Save_success_records_part_witness:
  "fst (Save [7, 7] demo_cp1 demo_open) = None
   \<and> nth_fault 2 demo_open = None
   \<and> length (parts (fst (snd (Save [7, 7] demo_cp1 demo_open)))) = 1
   \<and> ckpt_disk (snd (snd (Save [7, 7] demo_cp1 demo_open)))
       = ckpt_file (snd (snd (Save [7, 7] demo_cp1 demo_open)))"
proof -
  have e: "fst (Save [7, 7] demo_cp1 demo_open) = None"
    by (simp add: Save_def Let_def UploadPart_def file_Write_def file_Sync_def next_fault_def
          logged_def demo_open_def demo_world_def demo_cp1_def)
  have n: "nth_fault 2 demo_open = None"
    by (simp add: nth_fault_def demo_open_def demo_world_def)
  have p: "parts demo_cp1 = []"
    by (simp add: demo_cp1_def)
  have s: "Save [7, 7] demo_cp1 demo_open =
             (fst (Save [7, 7] demo_cp1 demo_open), fst (snd (Save [7, 7] demo_cp1 demo_open)),
              snd (snd (Save [7, 7] demo_cp1 demo_open)))"
    by simp
  from Save_success_records_part [OF s] e n p show ?thesis by auto
qed

text \<open>
  C6, as the claim states it, fails. When the write to the checkpoint file
  fails, Save returns the error and the part is in the in-memory list all the
  same; when Sync fails, Save returns nil and the record is not on stable
  storage.
\<close>

theorem Save_durability_counterexample:
  "fst (Save [7, 7] demo_cp1 (demo_open\<lparr>faults := [None, Some ''no space left on device'']\<rparr>))
     = Some (PlainError ''no space left on device'')
   \<and> parts (fst (snd (Save [7, 7] demo_cp1
         (demo_open\<lparr>faults := [None, Some ''no space left on device'']\<rparr>))))
     = [\<lparr>ETag = ''e14'', PartNumber = 1, Size = 2\<rparr>]
   \<and> parts demo_cp1 = []
   \<and> fst (Save [7, 7] demo_cp1 (demo_open\<lparr>faults := [None, None, Some ''input/output error'']\<rparr>))
     = None
   \<and> ckpt_disk (snd (snd (Save [7, 7] demo_cp1
         (demo_open\<lparr>faults := [None, None, Some ''input/output error'']\<rparr>))))
     = Some (''up1'' @ [CHR 0x0A])"
  by (simp add: Save_def Let_def UploadPart_def file_Write_def file_Sync_def next_fault_def
        logged_def demo_open_def demo_world_def demo_cp1_def demo_etag_def dec.simps
        digit_char_def)

lemma saved_numbers:
  assumes "saved cp0 w0 cp w" and "parts cp0 = []" and "ckpt_file w0 = Some h"
  shows "map PartNumber (parts cp) = map int [1..<Suc (length (parts cp))]
       \<and> ckpt_file w = Some (h @ concat (map fmt_part (parts cp)))"
  using assms
proof (induction rule: saved.induct)
  case saved_none
  then show ?case by simp
next
  case (saved_more cp w buf cp' w')
  from Save_None [OF saved_more.hyps(2)] obtain etag w1 w2 where
    up: "UploadPart (uploadID cp) (int (length (parts cp)) + 1) buf w = (Inr etag, w1)"
    and wr: "file_Write (fmt_part \<lparr>ETag = etag, PartNumber = int (length (parts cp)) + 1,
                                  Size = int (length buf)\<rparr>) w1 = (None, w2)"
    and w': "w' = snd (file_Sync w2)"
    and p: "parts cp' = parts cp @ [\<lparr>ETag = etag, PartNumber = int (length (parts cp)) + 1,
                                  Size = int (length buf)\<rparr>]"
    by auto
  from file_Write_None [OF wr] UploadPart_files [OF up] obtain c where
    c: "ckpt_file w = Some c"
       "ckpt_file w' = Some (c @ fmt_part \<lparr>ETag = etag, PartNumber = int (length (parts cp)) + 1,
                                  Size = int (length buf)\<rparr>)"
    by (auto simp: w' file_Sync_file)
  from saved_more.IH [OF saved_more.prems] c p show ?case by simp
qed

text \<open>
  C7. In every state that calls of Save returning nil reach from a freshly
  created session (New on a missing checkpoint file), the recorded part
  numbers are 1, 2, ..., N in this order, in memory and, as the lines that
  follow what New left in the file, in the checkpoint file; and a further
  Save that returns nil records the part under the number of parts so far
  plus one.
\<close>

theorem part_numbers_contiguous:
  assumes "ckpt_file w0 = None" and "New b f w0 = (Done cp0, w1)" and "saved cp0 w1 cp w"
  shows "map PartNumber (parts cp) = map int [1..<Suc (length (parts cp))]
       \<and> (\<exists>h. ckpt_file w1 = Some h \<and> ckpt_file w = Some (h @ concat (map fmt_part (parts cp))))
       \<and> (\<forall>buf cp' w'. Save buf cp w = (None, cp', w') \<longrightarrow>
            (\<exists>etag. parts cp' = parts cp @ [\<lparr>ETag = etag, PartNumber = int (length (parts cp)) + 1,
                                              Size = int (length buf)\<rparr>]))"
proof -
  from New_missing_parts [OF assms(1,2)] obtain h where
    p0: "parts cp0 = []" and h: "ckpt_file w1 = Some h" by blast
  from saved_numbers [OF assms(3) p0 h] h
  have a: "map PartNumber (parts cp) = map int [1..<Suc (length (parts cp))]"
    and b: "\<exists>h. ckpt_file w1 = Some h \<and> ckpt_file w = Some (h @ concat (map fmt_part (parts cp)))"
    by auto
  have c: "\<forall>buf cp' w'. Save buf cp w = (None, cp', w') \<longrightarrow>
            (\<exists>etag. parts cp' = parts cp @ [\<lparr>ETag = etag, PartNumber = int (length (parts cp)) + 1,
                                              Size = int (length buf)\<rparr>])"
  proof (intro allI impI)
    fix buf cp' w'
    assume "Save buf cp w = (None, cp', w')"
    from Save_None [OF this]
    show "\<exists>etag. parts cp' = parts cp @ [\<lparr>ETag = etag, PartNumber = int (length (parts cp)) + 1,
                                              Size = int (length buf)\<rparr>]"
      by auto
  qed
  from a b c show ?thesis by blast
qed


theorem part_numbers_contiguous_witness:
  "map PartNumber (parts (fst (snd
      (Save [3] (fst (snd (Save [1, 2] demo_cp1 (snd (New ''b'' ''d/f'' demo_world)))))
         (snd (snd (Save [1, 2] demo_cp1 (snd (New ''b'' ''d/f'' demo_world)))))))))
   = [1, 2]"
proof -
  let ?w1 = "snd (New ''b'' ''d/f'' demo_world)"
  let ?s1 = "Save [1, 2] demo_cp1 ?w1"
  let ?s2 = "Save [3] (fst (snd ?s1)) (snd (snd ?s1))"
  have ev: "fst (New ''b'' ''d/f'' demo_world) = Done demo_cp1" "fst ?s1 = None" "fst ?s2 = None"
    "length (parts (fst (snd ?s2))) = 2"
    by (simp_all add: New_def session_NewSession_def New_open_def Let_def os_Stat_dir_def os_OpenFile_def os_Create_def
          CreateMultipartUpload_def file_Write_def file_Sync_def next_fault_def logged_def
          demo_world_def demo_cp1_def Save_def UploadPart_def)
  have n: "New ''b'' ''d/f'' demo_world = (Done demo_cp1, ?w1)"
    using ev(1) by (simp add: prod_eq_iff)
  have s1: "?s1 = (None, fst (snd ?s1), snd (snd ?s1))"
    using ev(2) by (simp add: prod_eq_iff)
  have s2: "?s2 = (None, fst (snd ?s2), snd (snd ?s2))"
    using ev(3) by (simp add: prod_eq_iff)
  have r: "saved demo_cp1 ?w1 (fst (snd ?s2)) (snd (snd ?s2))"
    by (rule saved_more [OF saved_more [OF saved_none s1] s2])
  have f: "ckpt_file demo_world = None" by (simp add: demo_world_def)
  from part_numbers_contiguous [OF f n r] ev(4) show ?thesis
    by (simp add: upt_rec)
qed

section \<open>Properties of Complete\<close>

lemma CompleteMultipartUpload_error_is_aws:
  "CompleteMultipartUpload uid k ps w = (Some err, w1) \<Longrightarrow> \<exists>c. err = AwsError c"
  by (auto simp: CompleteMultipartUpload_def next_fault_def
           split: list.splits option.splits)

text \<open>
  C9. Whatever error the remote finalize call returns: when it is NoSuchUpload,
  Complete returns nil; any other error is returned to the caller as it is.
  (The warning that is logged is not part of the model.)
\<close>

theorem Complete_error_handling:
  assumes "CompleteMultipartUpload (uploadID cp) (TrimPrefix (key cp))
             (toS3CompletedParts (parts cp)) w = (Some err, w1)"
  shows "Complete cp w = (if err = AwsError ''NoSuchUpload'' then None else Some err, w1)"
proof -
  from CompleteMultipartUpload_error_is_aws [OF assms] obtain c where "err = AwsError c" ..
  with assms show ?thesis by (simp add: Complete_def)
qed

theorem Complete_error_handling_witness:
  "fst (Complete demo_cp demo_world) = None
   \<and> fst (Complete demo_cp1 (demo_open\<lparr>faults := [Some ''InternalError'']\<rparr>))
       = Some (AwsError ''InternalError'')"
proof -
  have a: "CompleteMultipartUpload (uploadID demo_cp) (TrimPrefix (key demo_cp))
             (toS3CompletedParts (parts demo_cp)) demo_world
           = (Some (AwsError ''NoSuchUpload''),
              logged (CompleteCall (Some ''gone'') [] (Some (AwsError ''NoSuchUpload''))) demo_world)"
    by (simp add: CompleteMultipartUpload_def next_fault_def demo_world_def demo_cp_def
          toS3CompletedParts_def)
  have b: "CompleteMultipartUpload (uploadID demo_cp1) (TrimPrefix (key demo_cp1))
             (toS3CompletedParts (parts demo_cp1)) (demo_open\<lparr>faults := [Some ''InternalError'']\<rparr>)
           = (Some (AwsError ''InternalError''),
              logged (CompleteCall (Some ''up1'') [] (Some (AwsError ''InternalError'')))
                (demo_open\<lparr>faults := []\<rparr>))"
    by (simp add: CompleteMultipartUpload_def next_fault_def demo_open_def demo_world_def
          demo_cp1_def toS3CompletedParts_def)
  from Complete_error_handling [OF a] Complete_error_handling [OF b] show ?thesis by simp
qed

section \<open>Properties of Seek\<close>

lemma int64_id: "- (2 ^ 63) \<le> x \<Longrightarrow> x < 2 ^ 63 \<Longrightarrow> int64 x = x"
  by (simp add: int64_def)

lemma int64_add_left: "int64 (int64 a + b) = int64 (a + b)"
proof -
  have "(((a + 2 ^ 63) mod 2 ^ 64 - 2 ^ 63) + b + 2 ^ 63) mod 2 ^ 64
        = ((a + 2 ^ 63) mod 2 ^ 64 + b) mod (2 ^ 64 :: int)"
    by (simp add: algebra_simps)
  also have "\<dots> = (a + 2 ^ 63 + b) mod 2 ^ 64"
    by (simp add: mod_add_left_eq)
  finally show ?thesis by (simp add: int64_def algebra_simps)
qed

lemma foldl_int64:
  "foldl (\<lambda>off part. int64 (off + Size part)) (int64 a) ps = int64 (a + sum_list (map Size ps))"
proof (induction ps arbitrary: a)
  case Nil
  show ?case by simp
next
  case (Cons p ps)
  have "foldl (\<lambda>off part. int64 (off + Size part)) (int64 a) (p # ps)
        = foldl (\<lambda>off part. int64 (off + Size part)) (int64 (a + Size p)) ps"
    by (simp add: int64_add_left)
  also have "\<dots> = int64 (a + Size p + sum_list (map Size ps))" by (rule Cons.IH)
  finally show ?case by (simp add: add.assoc)
qed

lemma seekOffset_wraps: "seekOffset ps = int64 (sum_list (map Size ps))"
  using foldl_int64 [of 0 ps] by (simp add: seekOffset_def int64_def)

lemma Seek_sum:
  assumes "0 \<le> sum_list (map Size (parts cp))" and "sum_list (map Size (parts cp)) < 2 ^ 63"
  shows "Seek cp cursor w =
     (if sum_list (map Size (parts cp)) \<le> max_offset w
      then (None, nat (sum_list (map Size (parts cp))))
      else (Some (PlainError ''invalid argument''), cursor))"
  using assms by (simp add: Seek_def file_Seek_def seekOffset_wraps int64_id)



section \<open>The loop of the driver\<close>

lemma next_fault_none: "faults w = [] \<Longrightarrow> next_fault w = (None, w)"
  by (simp add: next_fault_def)

lemma maxRW_pos: "0 < maxRW"
  by (simp add: maxRW_def)

lemma loopBody_ok:
  assumes "0 \<le> ps" and "faults w = []" and "uploadID cp = Some u"
    and "uploads w u = Some st" and "ckpt_file w = Some c"
  shows "loopBody ps F cursor cp w =
    (if drop cursor F = [] \<or> ps = 0 then Stop Break cp w
     else Next (cursor + length (take (min (nat ps) maxRW) (drop cursor F)))
       (cp\<lparr>parts := parts cp @ partsOf (etag_of w) (length (parts cp))
                 [hd (buffers (nat ps) (drop cursor F))]\<rparr>)
       (w\<lparr>uploads := (uploads w)(u \<mapsto> stored_after (etag_of w) (length (parts cp))
                 [hd (buffers (nat ps) (drop cursor F))] st),
          s3_log := s3_log w @ callsOf (etag_of w) u (length (parts cp))
                 [hd (buffers (nat ps) (drop cursor F))],
          ckpt_file := Some (c @ concat (map fmt_part (partsOf (etag_of w) (length (parts cp))
                 [hd (buffers (nat ps) (drop cursor F))]))),
          ckpt_disk := Some (c @ concat (map fmt_part (partsOf (etag_of w) (length (parts cp))
                 [hd (buffers (nat ps) (drop cursor F))])))\<rparr>))"
proof (cases "drop cursor F = [] \<or> ps = 0")
  case True
  with assms show ?thesis
    by (auto simp: loopBody_def file_Read_def next_fault_none Let_def)
next
  case False
  then have b: "buffers (nat ps) (drop cursor F) =
     (take (min (nat ps) maxRW) (drop cursor F) @ replicate (nat ps - length (take (min (nat ps) maxRW) (drop cursor F))) 0)
       # buffers (nat ps) (drop (min (nat ps) maxRW) (drop cursor F))"
    using assms(1) by (subst buffers.simps) auto
  from False assms(1) maxRW_pos have g: "take (min (nat ps) maxRW) (drop cursor F) \<noteq> []"
    by auto
  show ?thesis
    using False assms g
    by (simp add: b loopBody_def file_Read_def next_fault_none Let_def Save_def UploadPart_def
          logged_def file_Write_def file_Sync_def)
qed


lemma drop_after_read:
  "drop n (drop cursor F) = drop (cursor + length (take n (drop cursor F))) (F :: 'a list)"
proof (cases "n \<le> length F - cursor")
  case True
  then show ?thesis by (simp add: min_def add.commute)
next
  case False
  then show ?thesis by (simp add: min_def)
qed

lemma buffers_empty: "n = 0 \<or> data = [] \<Longrightarrow> buffers n data = []"
  by (subst buffers.simps) simp

lemma buffers_step:
  assumes "0 < n" and "drop cursor F \<noteq> []"
  shows "buffers n (drop cursor F) =
     (take (min n maxRW) (drop cursor F)
        @ replicate (n - length (take (min n maxRW) (drop cursor F))) 0)
       # buffers n (drop (cursor + length (take (min n maxRW) (drop cursor F))) F)"
proof -
  have "buffers n (drop cursor F) =
     (take (min n maxRW) (drop cursor F)
        @ replicate (n - length (take (min n maxRW) (drop cursor F))) 0)
       # buffers n (drop (min n maxRW) (drop cursor F))"
    using assms by (subst buffers.simps) (simp del: drop_drop)
  then show ?thesis by (simp only: drop_after_read [of "min n maxRW" cursor F])
qed

lemma buffers_small:
  "n \<le> maxRW \<Longrightarrow>
     buffers n data =
       (if n = 0 \<or> data = [] then []
        else (take n data @ replicate (n - length (take n data)) 0) # buffers n (drop n data))"
  by (subst buffers.simps) (simp add: min_absorb1)

lemma uploadLoop_ok:
  assumes "0 \<le> ps" and "faults w = []" and "uploadID cp = Some u"
    and "uploads w u = Some st" and "ckpt_file w = Some c" and "ckpt_disk w = Some c"
  shows "uploadLoop ps F cursor cp w =
    (Break,
     cp\<lparr>parts := parts cp @ partsOf (etag_of w) (length (parts cp))
                 (buffers (nat ps) (drop cursor F))\<rparr>,
     w\<lparr>uploads := (uploads w)(u \<mapsto> stored_after (etag_of w) (length (parts cp))
                 (buffers (nat ps) (drop cursor F)) st),
        s3_log := s3_log w @ callsOf (etag_of w) u (length (parts cp))
                 (buffers (nat ps) (drop cursor F)),
        ckpt_file := Some (c @ concat (map fmt_part (partsOf (etag_of w) (length (parts cp))
                 (buffers (nat ps) (drop cursor F))))),
        ckpt_disk := Some (c @ concat (map fmt_part (partsOf (etag_of w) (length (parts cp))
                 (buffers (nat ps) (drop cursor F)))))\<rparr>)"
  using assms
proof (induction ps F cursor cp w arbitrary: st c rule: uploadLoop.induct)
  case (1 ps F cursor cp w)
  note body = loopBody_ok [OF "1.prems"(1,2,3,4,5), of F cursor]
  show ?case
  proof (cases "drop cursor F = [] \<or> ps = 0")
    case True
    then have e: "buffers (nat ps) (drop cursor F) = []"
      by (auto intro: buffers_empty)
    have u: "(uploads w)(u \<mapsto> st) = uploads w"
      using "1.prems"(4) by (simp add: fun_upd_idem_iff)
    have w: "w\<lparr>ckpt_file := Some c, ckpt_disk := Some c\<rparr> = w"
      using "1.prems"(5,6) by (cases w) simp
    show ?thesis
      using True by (subst uploadLoop.simps) (simp add: body e u w)
  next
    case False
    let ?got = "take (min (nat ps) maxRW) (drop cursor F)"
    let ?b = "?got @ replicate (nat ps - length ?got) 0"
    let ?cursor' = "cursor + length ?got"
    let ?m = "length (parts cp)"
    let ?p = "\<lparr>ETag = etag_of w ?b, PartNumber = int ?m + 1, Size = int (length ?b)\<rparr>"
    let ?cp' = "cp\<lparr>parts := parts cp @ [?p]\<rparr>"
    let ?w' = "w\<lparr>uploads := (uploads w)(u \<mapsto> st(int ?m + 1 \<mapsto> (etag_of w ?b, ?b))),
                 s3_log := s3_log w @ [UploadPartCall (Some u) (int ?m + 1) ?b (Inr (etag_of w ?b))],
                 ckpt_file := Some (c @ fmt_part ?p),
                 ckpt_disk := Some (c @ fmt_part ?p)\<rparr>"
    from False "1.prems"(1) have n: "0 < nat ps" and d: "drop cursor F \<noteq> []" by auto
    have bs: "buffers (nat ps) (drop cursor F) = ?b # buffers (nat ps) (drop ?cursor' F)"
      by (rule buffers_step [OF n d])
    have nxt: "loopBody ps F cursor cp w = Next ?cursor' ?cp' ?w'"
      using False by (simp add: body bs)
    have ih: "uploadLoop ps F ?cursor' ?cp' ?w' =
      (Break,
       ?cp'\<lparr>parts := parts ?cp' @ partsOf (etag_of ?w') (length (parts ?cp'))
                 (buffers (nat ps) (drop ?cursor' F))\<rparr>,
       ?w'\<lparr>uploads := (uploads ?w')(u \<mapsto> stored_after (etag_of ?w') (length (parts ?cp'))
                 (buffers (nat ps) (drop ?cursor' F)) (st(int ?m + 1 \<mapsto> (etag_of w ?b, ?b)))),
          s3_log := s3_log ?w' @ callsOf (etag_of ?w') u (length (parts ?cp'))
                 (buffers (nat ps) (drop ?cursor' F)),
          ckpt_file := Some ((c @ fmt_part ?p) @ concat (map fmt_part (partsOf (etag_of ?w')
                 (length (parts ?cp')) (buffers (nat ps) (drop ?cursor' F))))),
          ckpt_disk := Some ((c @ fmt_part ?p) @ concat (map fmt_part (partsOf (etag_of ?w')
                 (length (parts ?cp')) (buffers (nat ps) (drop ?cursor' F)))))\<rparr>)"
    proof -
      have a1: "faults ?w' = []" using "1.prems"(2) by simp
      have a2: "uploadID ?cp' = Some u" using "1.prems"(3) by simp
      have a3: "uploads ?w' u = Some (st(int ?m + 1 \<mapsto> (etag_of w ?b, ?b)))" by simp
      have a4: "ckpt_file ?w' = Some (c @ fmt_part ?p)" by simp
      have a5: "ckpt_disk ?w' = Some (c @ fmt_part ?p)" by simp
      show ?thesis by (rule "1.IH" [OF nxt "1.prems"(1) a1 a2 a3 a4 a5])
    qed
    have e1: "uploadLoop ps F cursor cp w = uploadLoop ps F ?cursor' ?cp' ?w'"
      by (subst uploadLoop.simps) (simp only: nxt step.case)
    show ?thesis
      using "1.prems"(1) by (subst e1, subst ih) (simp add: bs)
  qed
qed


lemma stored_after_lookup:
  "stored_after et m bs st (int j + 1) =
     (if m \<le> j \<and> j < m + length bs then Some (et (bs ! (j - m)), bs ! (j - m))
      else st (int j + 1))"
proof (induction bs arbitrary: m st)
  case Nil
  show ?case by auto
next
  case (Cons b bs)
  have "stored_after et m (b # bs) st (int j + 1)
        = stored_after et (Suc m) bs (st(int m + 1 \<mapsto> (et b, b))) (int j + 1)"
    by simp
  also have "\<dots> = (if Suc m \<le> j \<and> j < Suc m + length bs
                     then Some (et (bs ! (j - Suc m)), bs ! (j - Suc m))
                     else (st(int m + 1 \<mapsto> (et b, b))) (int j + 1))"
    by (rule Cons.IH)
  also have "\<dots> = (if m \<le> j \<and> j < m + length (b # bs)
                     then Some (et ((b # bs) ! (j - m)), (b # bs) ! (j - m))
                     else st (int j + 1))"
    by (auto simp: nth_Cons')
  finally show ?case .
qed

lemma partsOf_append:
  "partsOf et m (xs @ ys) = partsOf et m xs @ partsOf et (m + length xs) ys"
  by (induction xs arbitrary: m) simp_all

lemma length_partsOf: "length (partsOf et m bs) = length bs"
  by (induction bs arbitrary: m) simp_all

lemma toS3CompletedParts_map: "toS3CompletedParts ps = map toS3CompletedPart ps"
proof -
  have "foldl (\<lambda>s3cps cp. s3cps @ [toS3CompletedPart cp]) acc ps = acc @ map toS3CompletedPart ps"
    for acc
    by (induction ps arbitrary: acc) simp_all
  then show ?thesis by (simp add: toS3CompletedParts_def)
qed

lemma assemble_partsOf:
  assumes "\<forall>i < length bs. st (int (m + i) + 1) = Some (et (bs ! i), bs ! i)"
  shows "assemble st (toS3CompletedParts (partsOf et m bs)) = Some (concat bs)"
  using assms
proof (induction bs arbitrary: m)
  case Nil
  show ?case by (simp add: toS3CompletedParts_map)
next
  case (Cons b bs)
  from Cons.prems have h: "st (int m + 1) = Some (et b, b)" by force
  have "\<forall>i < length bs. st (int (Suc m + i) + 1) = Some (et (bs ! i), bs ! i)"
  proof (intro allI impI)
    fix i assume "i < length bs"
    then have "Suc i < length (b # bs)" by simp
    with Cons.prems have "st (int (m + Suc i) + 1) = Some (et ((b # bs) ! Suc i), (b # bs) ! Suc i)"
      by blast
    then show "st (int (Suc m + i) + 1) = Some (et (bs ! i), bs ! i)" by simp
  qed
  from Cons.IH [OF this] h show ?case
    by (simp add: toS3CompletedParts_map toS3CompletedPart_def listed_body_def)
qed

lemma Complete_ok:
  assumes "faults w = []" and "uploadID cp = Some u" and "uploads w u = Some st"
    and "assemble st (toS3CompletedParts (parts cp)) = Some obj"
  shows "Complete cp w =
     (None, w\<lparr>uploads := (uploads w)(u := None),
              objects := (objects w)(TrimPrefix (key cp) \<mapsto> obj),
              s3_log := s3_log w @ [CompleteCall (Some u) (toS3CompletedParts (parts cp)) None]\<rparr>)"
  using assms
  by (simp add: Complete_def CompleteMultipartUpload_def next_fault_none logged_def)

lemma New_fresh:
  assumes "faults w = []" and "ckpt_file w = None" and "ckpt_dir w \<noteq> NotDir"
  shows "New b f w =
     (Done \<lparr>uploadID = Some (issue_id w), parts = [], bucket = b, key = f\<rparr>,
      w\<lparr>uploads := (uploads w)(issue_id w \<mapsto> Map.empty),
        s3_log := s3_log w @ [CreateCall (TrimPrefix f) (Inr (issue_id w))],
        ckpt_dir := IsDir,
        ckpt_file := Some (issue_id w @ [CHR 0x0A]),
        ckpt_disk := Some (issue_id w @ [CHR 0x0A])\<rparr>)"
proof -
  have d: "w\<lparr>ckpt_dir := IsDir\<rparr> = w" if "ckpt_dir w = IsDir"
    using that by (cases w) simp
  show ?thesis
    using assms
    by (cases "ckpt_dir w")
       (simp_all add: New_def session_NewSession_def Let_def os_Stat_dir_def os_Mkdir_def New_open_def os_OpenFile_def
          os_Create_def CreateMultipartUpload_def file_Write_def file_Sync_def next_fault_none
          logged_def d)
qed


lemma buffers_length: "b \<in> set (buffers n data) \<Longrightarrow> length b = n"
proof (induction n data rule: buffers.induct)
  case (1 n data)
  show ?case
  proof (cases "n = 0 \<or> data = []")
    case True
    with "1.prems" show ?thesis by (simp add: buffers_empty)
  next
    case False
    with "1.prems" have "b = take (min n maxRW) data
          @ replicate (n - length (take (min n maxRW) data)) 0
        \<or> b \<in> set (buffers n (drop (min n maxRW) data))"
      by (subst (asm) buffers.simps) auto
    then show ?thesis
    proof
      assume b: "b = take (min n maxRW) data @ replicate (n - length (take (min n maxRW) data)) 0"
      have "length (take (min n maxRW) data) \<le> n" by simp
      then show ?thesis by (simp add: b)
    next
      assume "b \<in> set (buffers n (drop (min n maxRW) data))"
      with "1.IH" False show ?thesis by blast
    qed
  qed
qed

lemma buffers_count:
  "0 < n \<Longrightarrow> n \<le> maxRW \<Longrightarrow> length (buffers n data) = (length data + n - 1) div n"
proof (induction n data rule: buffers.induct)
  case (1 n data)
  from "1.prems" have m: "min n maxRW = n" by simp
  show ?case
  proof (cases "data = []")
    case True
    with "1.prems" show ?thesis by (simp add: buffers_empty)
  next
    case False
    with "1.prems" have s: "buffers n data =
        (take n data @ replicate (n - length (take n data)) 0) # buffers n (drop n data)"
      by (simp add: buffers_small [of n data])
    from "1.IH" False "1.prems"
    have ih: "length (buffers n (drop n data)) = (length (drop n data) + n - 1) div n"
      by (simp add: m)
    show ?thesis
    proof (cases "n \<le> length data")
      case True
      then have "length data + n - 1 = (length data - n + n - 1) + n"
        using "1.prems" by arith
      then have "(length data + n - 1) div n = (length data - n + n - 1) div n + 1"
        using "1.prems" by (simp only: div_add_self2)
      then show ?thesis by (simp add: s ih)
    next
      case False
      then have d: "drop n data = []" by simp
      from False \<open>data \<noteq> []\<close> have "n * 1 \<le> length data + n - 1"
        and "length data + n - 1 < n * Suc 1"
        by (cases data; simp)+
      then have "(length data + n - 1) div n = 1" by (rule div_nat_eqI)
      with d show ?thesis by (simp add: s buffers_empty)
    qed
  qed
qed


lemma os_Open_ok: "faults w = [] \<Longrightarrow> os_Open w = (None, w)"
  by (simp add: os_Open_def next_fault_none)

lemma Seek_no_parts: "parts cp = [] \<Longrightarrow> snd (Seek cp 0 w) = 0"
  by (simp add: Seek_def seekOffset_def file_Seek_def)

lemma assemble_stored_after:
  "assemble (stored_after et m bs st) (toS3CompletedParts (partsOf et m bs)) = Some (concat bs)"
proof (rule assemble_partsOf, intro allI impI)
  fix i assume "i < length bs"
  then show "stored_after et m bs st (int (m + i) + 1) = Some (et (bs ! i), bs ! i)"
    by (subst stored_after_lookup) simp
qed

lemma uploadFile_fresh:
  assumes "0 \<le> ps" and "faults w = []" and "ckpt_file w = None" and "ckpt_dir w \<noteq> NotDir"
  shows "uploadFile b path ps F w =
    (Done None,
     w\<lparr>uploads := (uploads w)(issue_id w := None),
       objects := (objects w)(TrimPrefix path \<mapsto> concat (buffers (nat ps) F)),
       s3_log := s3_log w @ [CreateCall (TrimPrefix path) (Inr (issue_id w))]
                   @ callsOf (etag_of w) (issue_id w) 0 (buffers (nat ps) F)
                   @ [CompleteCall (Some (issue_id w))
                        (toS3CompletedParts (partsOf (etag_of w) 0 (buffers (nat ps) F))) None],
       ckpt_dir := IsDir,
       ckpt_file := Some (issue_id w @ [CHR 0x0A]
                   @ concat (map fmt_part (partsOf (etag_of w) 0 (buffers (nat ps) F)))),
       ckpt_disk := Some (issue_id w @ [CHR 0x0A]
                   @ concat (map fmt_part (partsOf (etag_of w) 0 (buffers (nat ps) F))))\<rparr>)"
proof -
  let ?u = "issue_id w"
  let ?Bs = "buffers (nat ps) F"
  let ?P = "partsOf (etag_of w) 0 ?Bs"
  let ?cp1 = "\<lparr>uploadID = Some ?u, parts = [], bucket = b, key = path\<rparr>"
  let ?w1 = "w\<lparr>uploads := (uploads w)(?u \<mapsto> Map.empty),
               s3_log := s3_log w @ [CreateCall (TrimPrefix path) (Inr ?u)],
               ckpt_dir := IsDir,
               ckpt_file := Some (?u @ [CHR 0x0A]),
               ckpt_disk := Some (?u @ [CHR 0x0A])\<rparr>"
  let ?cp2 = "?cp1\<lparr>parts := parts ?cp1 @ partsOf (etag_of ?w1) (length (parts ?cp1))
                 (buffers (nat ps) (drop 0 F))\<rparr>"
  let ?w2 = "?w1\<lparr>uploads := (uploads ?w1)(?u \<mapsto> stored_after (etag_of ?w1) (length (parts ?cp1))
                 (buffers (nat ps) (drop 0 F)) Map.empty),
        s3_log := s3_log ?w1 @ callsOf (etag_of ?w1) ?u (length (parts ?cp1))
                 (buffers (nat ps) (drop 0 F)),
        ckpt_file := Some ((?u @ [CHR 0x0A]) @ concat (map fmt_part (partsOf (etag_of ?w1)
                 (length (parts ?cp1)) (buffers (nat ps) (drop 0 F))))),
        ckpt_disk := Some ((?u @ [CHR 0x0A]) @ concat (map fmt_part (partsOf (etag_of ?w1)
                 (length (parts ?cp1)) (buffers (nat ps) (drop 0 F)))))\<rparr>"
  have n: "New b path w = (Done ?cp1, ?w1)"
    by (rule New_fresh [OF assms(2,3,4)])
  have l: "uploadLoop ps F 0 ?cp1 ?w1 = (Break, ?cp2, ?w2)"
    by (rule uploadLoop_ok [OF assms(1)]) (simp_all add: assms(2))
  have c: "Complete ?cp2 ?w2 =
     (None, ?w2\<lparr>uploads := (uploads ?w2)(?u := None),
              objects := (objects ?w2)(TrimPrefix (key ?cp2) \<mapsto> concat ?Bs),
              s3_log := s3_log ?w2 @ [CompleteCall (Some ?u) (toS3CompletedParts (parts ?cp2)) None]\<rparr>)"
  proof (rule Complete_ok)
    show "faults ?w2 = []" using assms(2) by simp
    show "uploadID ?cp2 = Some ?u" by simp
    show "uploads ?w2 ?u = Some (stored_after (etag_of w) 0 ?Bs Map.empty)" by simp
    show "assemble (stored_after (etag_of w) 0 ?Bs Map.empty) (toS3CompletedParts (parts ?cp2))
            = Some (concat ?Bs)"
      by (simp add: assemble_stored_after)
  qed
  have "uploadFile b path ps F w =
     (Done None, ?w2\<lparr>uploads := (uploads ?w2)(?u := None),
              objects := (objects ?w2)(TrimPrefix (key ?cp2) \<mapsto> concat ?Bs),
              s3_log := s3_log ?w2 @ [CompleteCall (Some ?u) (toS3CompletedParts (parts ?cp2)) None]\<rparr>)"
    unfolding uploadFile_def
    by (simp only: os_Open_ok [OF assms(2)] n Seek_no_parts [of ?cp1, simplified] l c
          prod.case option.case run.case loop_end.case snd_conv)
  also have "\<dots> = (Done None,
     w\<lparr>uploads := (uploads w)(issue_id w := None),
       objects := (objects w)(TrimPrefix path \<mapsto> concat (buffers (nat ps) F)),
       s3_log := s3_log w @ [CreateCall (TrimPrefix path) (Inr (issue_id w))]
                   @ callsOf (etag_of w) (issue_id w) 0 (buffers (nat ps) F)
                   @ [CompleteCall (Some (issue_id w))
                        (toS3CompletedParts (partsOf (etag_of w) 0 (buffers (nat ps) F))) None],
       ckpt_dir := IsDir,
       ckpt_file := Some (issue_id w @ [CHR 0x0A]
                   @ concat (map fmt_part (partsOf (etag_of w) 0 (buffers (nat ps) F)))),
       ckpt_disk := Some (issue_id w @ [CHR 0x0A]
                   @ concat (map fmt_part (partsOf (etag_of w) 0 (buffers (nat ps) F))))\<rparr>)"
    by simp
  finally show ?thesis .
qed


section \<open>Recorded sizes\<close>

lemma buffers_250MiB:
  assumes "length F = 262144000"
  shows "buffers 104857600 F =
    [take 104857600 F, take 104857600 (drop 104857600 F),
     drop 209715200 F @ replicate 52428800 0]"
proof -
  have f: "F \<noteq> []" using assms by auto
  have d1: "drop 104857600 F \<noteq> []" using assms by auto
  have d2: "drop 104857600 (drop 104857600 F) \<noteq> []" using assms by auto
  have d3: "drop 104857600 (drop 104857600 (drop 104857600 F)) = []" using assms by simp
  have "buffers 104857600 F =
      (take 104857600 F @ replicate (104857600 - length (take 104857600 F)) 0)
        # buffers 104857600 (drop 104857600 F)"
    using f by (subst buffers_small) (simp_all add: maxRW_def)
  also have "buffers 104857600 (drop 104857600 F) =
      (take 104857600 (drop 104857600 F)
         @ replicate (104857600 - length (take 104857600 (drop 104857600 F))) 0)
        # buffers 104857600 (drop 104857600 (drop 104857600 F))"
    using d1 by (subst buffers_small) (simp_all add: maxRW_def del: drop_drop)
  also have "buffers 104857600 (drop 104857600 (drop 104857600 F)) =
      (take 104857600 (drop 104857600 (drop 104857600 F))
         @ replicate (104857600 - length (take 104857600 (drop 104857600 (drop 104857600 F)))) 0)
        # buffers 104857600 (drop 104857600 (drop 104857600 (drop 104857600 F)))"
    using d2 by (subst buffers_small) (simp_all add: maxRW_def del: drop_drop)
  also have "buffers 104857600 (drop 104857600 (drop 104857600 (drop 104857600 F))) = []"
    using assms by (simp add: buffers_empty)
  finally show ?thesis using assms by (simp add: min_def)
qed

text \<open>
  C2 fails on the code. The driver hands the whole buffer to Save, not the
  \<open>n\<close> bytes that were read, so every recorded size is the part size. For a
  file of 250 MiB and a part size of 100 MiB: the checkpoint file holds three
  part lines, each with size 104857600 (100 MiB), also the third, for which
  50 MiB were read; and the finished object has 300 MiB, the last 50 MiB of
  them zero bytes that are not in the file.
\<close>

theorem sizes_of_250MiB_file:
  assumes "length F = 262144000"
    and "faults w = []" and "ckpt_file w = None" and "ckpt_dir w \<noteq> NotDir"
  shows "(\<exists>e1 e2 e3.
            ckpt_file (snd (uploadFile b path 104857600 F w)) =
              Some (issue_id w @ [CHR 0x0A]
                    @ e1 @ '',1,104857600'' @ [CHR 0x0A]
                    @ e2 @ '',2,104857600'' @ [CHR 0x0A]
                    @ e3 @ '',3,104857600'' @ [CHR 0x0A]))
       \<and> (\<exists>obj. objects (snd (uploadFile b path 104857600 F w)) (TrimPrefix path) = Some obj
                \<and> length obj = 314572800)"
proof -
  have d: "fmt_d 104857600 = ''104857600''" "fmt_d 1 = ''1''" "fmt_d 2 = ''2''" "fmt_d 3 = ''3''"
    by (simp_all add: fmt_d_def dec.simps digit_char_def)
  have "(0 :: int) \<le> 104857600" by simp
  note r = uploadFile_fresh [OF this assms(2,3,4), of b path F]
  have "ckpt_file (snd (uploadFile b path 104857600 F w)) =
              Some (issue_id w @ [CHR 0x0A]
                    @ etag_of w (take 104857600 F) @ '',1,104857600'' @ [CHR 0x0A]
                    @ etag_of w (take 104857600 (drop 104857600 F)) @ '',2,104857600'' @ [CHR 0x0A]
                    @ etag_of w (drop 209715200 F @ replicate 52428800 0) @ '',3,104857600''
                    @ [CHR 0x0A])"
    using assms(1)
    by (simp add: r buffers_250MiB [OF assms(1)] fmt_part_def d)
  moreover have "objects (snd (uploadFile b path 104857600 F w)) (TrimPrefix path)
      = Some (concat (buffers 104857600 F))"
    by (simp add: r)
  moreover have "length (concat (buffers 104857600 F)) = 314572800"
    using assms(1) by (simp add: buffers_250MiB [OF assms(1)])
  ultimately show ?thesis by blast
qed

theorem sizes_of_250MiB_file_witness:
  "\<exists>obj. objects (snd (uploadFile ''b'' ''d/f'' 104857600 (replicate 262144000 0) demo_world)) ''d/f''
             = Some obj \<and> length obj = 314572800"
proof -
  have "length (replicate 262144000 (0 :: byte)) = 262144000" by (simp only: length_replicate)
  from sizes_of_250MiB_file [OF this, of demo_world "''b''" "''d/f''"]
  show ?thesis by (simp add: demo_world_def)
qed


section \<open>What Complete sends\<close>

lemma uploaded_append: "uploaded (xs @ ys) = uploaded xs @ uploaded ys"
  by (induction xs rule: uploaded.induct) simp_all

lemma toS3CompletedParts_append:
  "toS3CompletedParts (xs @ ys) = toS3CompletedParts xs @ toS3CompletedParts ys"
  by (simp add: toS3CompletedParts_map)

lemma UploadPart_trace:
  assumes "UploadPart uid n body w = (r, w')"
  shows "s3_log w' = s3_log w @ [UploadPartCall uid n body r]"
  using assms
  by (auto simp: UploadPart_def next_fault_def logged_def split: list.splits option.splits)

lemma file_Write_log: "s3_log (snd (file_Write s w)) = s3_log w"
  by (auto simp: file_Write_def next_fault_def split: list.splits option.splits)

lemma file_Sync_log: "s3_log (snd (file_Sync w)) = s3_log w"
  by (auto simp: file_Sync_def next_fault_def split: list.splits option.splits)

lemma Save_trace:
  assumes "Save buf cp w = (r, cp', w')"
  shows "\<exists>ev. s3_log w' = s3_log w @ ev
            \<and> toS3CompletedParts (parts cp') = toS3CompletedParts (parts cp) @ uploaded ev
            \<and> uploadID cp' = uploadID cp"
proof (cases "UploadPart (uploadID cp) (int (length (parts cp)) + 1) buf w")
  case (Pair res w1)
  note t = UploadPart_trace [OF Pair]
  show ?thesis
  proof (cases res)
    case (Inl err)
    with assms Pair t show ?thesis by (simp add: Save_def)
  next
    case (Inr etag)
    let ?p = "\<lparr>ETag = etag, PartNumber = int (length (parts cp)) + 1, Size = int (length buf)\<rparr>"
    from assms Pair Inr have c: "cp' = cp\<lparr>parts := parts cp @ [?p]\<rparr>"
      by (auto simp: Save_def Let_def split: prod.splits option.splits)
    from assms Pair Inr have "s3_log w' = s3_log w1"
      using file_Write_log [of "fmt_part ?p" w1]
            file_Sync_log [of "snd (file_Write (fmt_part ?p) w1)"]
      by (auto simp: Save_def Let_def split: prod.splits option.splits)
    with t Inr c show ?thesis
      by (simp add: toS3CompletedParts_map toS3CompletedPart_def)
  qed
qed

lemma file_Read_log: "file_Read len F cursor w = (r, w') \<Longrightarrow> s3_log w' = s3_log w"
  by (auto simp: file_Read_def next_fault_def Let_def split: list.splits option.splits)

lemma loopBody_trace:
  "loopBody ps F cursor cp w = Next cursor' cp' w' \<or> loopBody ps F cursor cp w = Stop e cp' w' \<Longrightarrow>
     \<exists>ev. s3_log w' = s3_log w @ ev
          \<and> toS3CompletedParts (parts cp') = toS3CompletedParts (parts cp) @ uploaded ev
          \<and> uploadID cp' = uploadID cp"
proof (cases "ps < 0")
  case True
  assume "loopBody ps F cursor cp w = Next cursor' cp' w' \<or> loopBody ps F cursor cp w = Stop e cp' w'"
  with True show ?thesis by (auto simp: loopBody_def)
next
  case False
  assume a: "loopBody ps F cursor cp w = Next cursor' cp' w' \<or> loopBody ps F cursor cp w = Stop e cp' w'"
  obtain r w1 where rd: "file_Read (nat ps) F cursor w = (r, w1)" by (cases "file_Read (nat ps) F cursor w")
  note l1 = file_Read_log [OF rd]
  show ?thesis
  proof (cases r)
    case (Inl err)
    with a False rd l1 show ?thesis by (auto simp: loopBody_def)
  next
    case (Inr nb)
    obtain n buffer where nb: "nb = (n, buffer)" by (cases nb)
    show ?thesis
    proof (cases "n = 0")
      case True
      with a False rd l1 Inr nb show ?thesis by (auto simp: loopBody_def)
    next
      case n0: False
      obtain r2 cp2 w2 where sv: "Save buffer cp w1 = (r2, cp2, w2)"
        by (cases "Save buffer cp w1") auto
      from a False rd Inr nb n0 sv have "cp' = cp2 \<and> w' = w2"
        by (auto simp: loopBody_def split: option.splits)
      with Save_trace [OF sv] l1 show ?thesis by simp
    qed
  qed
qed

lemma uploadLoop_trace:
  "uploadLoop ps F cursor cp w = (e, cp', w') \<Longrightarrow>
     \<exists>ev. s3_log w' = s3_log w @ ev
          \<and> toS3CompletedParts (parts cp') = toS3CompletedParts (parts cp) @ uploaded ev
          \<and> uploadID cp' = uploadID cp"
proof (induction ps F cursor cp w arbitrary: e cp' w' rule: uploadLoop.induct)
  case (1 ps F cursor cp w)
  show ?case
  proof (cases "loopBody ps F cursor cp w")
    case (Stop e1 cp1 w1)
    with "1.prems" have "cp' = cp1 \<and> w' = w1" by (subst (asm) uploadLoop.simps) simp
    with loopBody_trace [of ps F cursor cp w _ cp1 w1 e1] Stop show ?thesis by simp
  next
    case (Next cursor1 cp1 w1)
    with "1.prems" have "uploadLoop ps F cursor1 cp1 w1 = (e, cp', w')"
      by (subst (asm) uploadLoop.simps) simp
    from "1.IH" [OF Next this] obtain ev2 where
      2: "s3_log w' = s3_log w1 @ ev2"
         "toS3CompletedParts (parts cp') = toS3CompletedParts (parts cp1) @ uploaded ev2"
         "uploadID cp' = uploadID cp1" by blast
    from loopBody_trace [of ps F cursor cp w cursor1 cp1 w1] Next obtain ev1 where
      1: "s3_log w1 = s3_log w @ ev1"
         "toS3CompletedParts (parts cp1) = toS3CompletedParts (parts cp) @ uploaded ev1"
         "uploadID cp1 = uploadID cp" by blast
    from 1 2 have "s3_log w' = s3_log w @ (ev1 @ ev2)
          \<and> toS3CompletedParts (parts cp') = toS3CompletedParts (parts cp) @ uploaded (ev1 @ ev2)
          \<and> uploadID cp' = uploadID cp"
      by (simp add: uploaded_append)
    then show ?thesis by blast
  qed
qed

lemma Complete_trace:
  "Complete cp w = (r, w') \<Longrightarrow>
     \<exists>resp. s3_log w' = s3_log w @ [CompleteCall (uploadID cp) (toS3CompletedParts (parts cp)) resp]"
  by (auto simp: Complete_def CompleteMultipartUpload_def next_fault_def logged_def
        split: list.splits option.splits prod.splits error.splits if_splits)

text \<open>
  C4. In every run of the driver that reaches Complete (New returns, the loop
  is left at the end of the file), the request that Complete sends lists
  first the parts that New has read from the checkpoint file, in the order of
  the file, and then the parts that the UploadPart calls of this run have
  stored, in the order of the calls.
\<close>

theorem Complete_sends_all_parts:
  assumes "New b path w0 = (Done cp0, w1)"
    and "uploadLoop ps F cursor cp0 w1 = (Break, cp2, w2)"
    and "Complete cp2 w2 = (r, w3)"
  shows "\<exists>resp. s3_log w3 = s3_log w2 @
            [CompleteCall (uploadID cp0)
               (toS3CompletedParts (parts cp0) @ uploaded (drop (length (s3_log w1)) (s3_log w2)))
               resp]"
proof -
  from uploadLoop_trace [OF assms(2)] obtain ev where
    ev: "s3_log w2 = s3_log w1 @ ev"
        "toS3CompletedParts (parts cp2) = toS3CompletedParts (parts cp0) @ uploaded ev"
        "uploadID cp2 = uploadID cp0" by blast
  from Complete_trace [OF assms(3)] obtain resp where
    "s3_log w3 = s3_log w2 @ [CompleteCall (uploadID cp2) (toS3CompletedParts (parts cp2)) resp]"
    by blast
  with ev show ?thesis by simp
qed


text \<open>The definitions that evaluate a run in an example world.\<close>

lemmas demo_eval =
  New_def session_NewSession_def New_open_def Let_def os_Stat_dir_def os_OpenFile_def os_Create_def os_Mkdir_def
  file_Stat_Size_def CreateMultipartUpload_def file_Write_def file_Sync_def next_fault_def
  logged_def Save_def UploadPart_def ScanLines_def dropCR_def parse_part_def ParseInt_def
  ParseUint_def digit_val_def fmt_part_def fmt_d_def dec.simps digit_char_def demo_etag_def
  uploadLoop.simps loopBody_def file_Read_def maxRW_def Seek_def seekOffset_def file_Seek_def
  int64_def
  Complete_def CompleteMultipartUpload_def toS3CompletedParts_def toS3CompletedPart_def
  listed_body_def os_Open_def uploadFile_def

theorem Complete_sends_all_parts_witness:
  "\<exists>resp. s3_log (snd (uploadFile ''b'' ''d/f'' 2 [1, 2, 3, 4, 5] demo_resume)) =
     [UploadPartCall (Some ''up1'') 2 [3, 4] (Inr ''e7''),
      UploadPartCall (Some ''up1'') 3 [5, 0] (Inr ''e5''),
      CompleteCall (Some ''up1'') [(''e3'', 1), (''e7'', 2), (''e5'', 3)] resp]"
proof -
  let ?l = "uploadLoop 2 [1, 2, 3, 4, 5] 2 demo_cp_resumed demo_resume"
  have n: "New ''b'' ''d/f'' demo_resume = (Done demo_cp_resumed, demo_resume)"
    by (simp add: demo_eval demo_resume_def demo_world_def demo_cp_resumed_def)
  have b: "fst ?l = Break"
    and g: "s3_log (snd (snd ?l)) =
       [UploadPartCall (Some ''up1'') 2 [3, 4] (Inr ''e7''),
        UploadPartCall (Some ''up1'') 3 [5, 0] (Inr ''e5'')]"
    by (simp_all add: demo_eval demo_resume_def demo_world_def demo_cp_resumed_def)
  obtain cp2 w2 where l: "?l = (Break, cp2, w2)"
    using b by (cases ?l) auto
  have g2: "s3_log w2 =
       [UploadPartCall (Some ''up1'') 2 [3, 4] (Inr ''e7''),
        UploadPartCall (Some ''up1'') 3 [5, 0] (Inr ''e5'')]"
    using g l by simp
  have c: "Complete cp2 w2 = (fst (Complete cp2 w2), snd (Complete cp2 w2))" by simp
  have s: "Seek demo_cp_resumed 0 demo_resume = (None, 2)"
    by (simp add: demo_eval demo_cp_resumed_def demo_resume_def demo_world_def)
  have o: "os_Open demo_resume = (None, demo_resume)"
    by (simp add: os_Open_def next_fault_def demo_resume_def demo_world_def)
  have u: "snd (uploadFile ''b'' ''d/f'' 2 [1, 2, 3, 4, 5] demo_resume) = snd (Complete cp2 w2)"
    unfolding uploadFile_def by (simp add: o n s l split: prod.splits)
  have p: "parts demo_cp_resumed = [\<lparr>ETag = ''e3'', PartNumber = 1, Size = 2\<rparr>]"
    "uploadID demo_cp_resumed = Some ''up1''" "s3_log demo_resume = []"
    by (simp_all add: demo_cp_resumed_def demo_resume_def demo_world_def)
  from Complete_sends_all_parts [OF n l c] show ?thesis
    by (simp add: u g2 p toS3CompletedParts_def toS3CompletedPart_def)
qed


section \<open>The orchestrator and a failing task\<close>

lemma goroutines_all_done:
  "\<forall>t \<in> set ts. goroutine b d ps t = Done () \<Longrightarrow>
     goroutines b d ps done ts = Finished (done @ map name ts)"
  by (induction ts arbitrary: "done") simp_all

lemma goroutines_first_failure:
  assumes "\<forall>t \<in> set pre. goroutine b d ps t = Done ()"
    and "failure (goroutine b d ps t) = Some err"
  shows "goroutines b d ps done (pre @ t # post) = Died (name t) err (done @ map name pre) (map name post)"
  using assms
proof (induction pre arbitrary: "done")
  case Nil
  then show ?case by (cases "goroutine b d ps t") (simp_all add: failure_def)
next
  case (Cons p pre)
  then show ?case by simp
qed

text \<open>
  C5, as the code has it. Whatever the order in which the goroutines reach
  their end: when every one of them returns, \<open>main\<close> gets past \<open>wg.Wait()\<close>,
  reports and returns; when one fails (\<open>uploadFile\<close> returns an error and
  the goroutine panics, or a call inside \<open>uploadFile\<close> ends the process),
  the process ends with that error, and the goroutines that have not reached
  their end by then never do.
\<close>

theorem main_dies_with_first_failure:
  assumes "bucketName \<noteq> []" and "dirName \<noteq> []"
  shows "((\<forall>t \<in> set (scheduled es sched). goroutine bucketName dirName partSize t = Done ()) \<longrightarrow>
            main bucketName dirName partSize (Inr es) sched = Finished (map name (scheduled es sched)))
       \<and> (\<forall>pre t post err.
            scheduled es sched = pre @ t # post
            \<and> (\<forall>x \<in> set pre. goroutine bucketName dirName partSize x = Done ())
            \<and> failure (goroutine bucketName dirName partSize t) = Some err \<longrightarrow>
            main bucketName dirName partSize (Inr es) sched
              = Died (name t) err (map name pre) (map name post))"
proof -
  have m: "main bucketName dirName partSize (Inr es) sched
             = goroutines bucketName dirName partSize [] (scheduled es sched)"
    using assms by (simp add: main_def scheduled_def Let_def)
  show ?thesis
    using goroutines_all_done [of "scheduled es sched" bucketName dirName partSize "[]"]
          goroutines_first_failure [of _ bucketName dirName partSize _ _ "[]"]
    by (auto simp: m)
qed

theorem main_dies_with_first_failure_witness:
  "main ''b'' ''d'' 2 (Inr demo_dir) [1, 0] = Died ''bad'' (PlainError ''permission denied'') [''good''] []"
proof -
  have g: "goroutine ''b'' ''d'' 2 (demo_dir ! 1) = Done ()"
    by (simp add: goroutine_def demo_dir_def demo_world_def demo_eval)
  have f: "failure (goroutine ''b'' ''d'' 2 (demo_dir ! 0)) = Some (PlainError ''permission denied'')"
    by (simp add: goroutine_def failure_def demo_dir_def demo_world_def uploadFile_def os_Open_def
          next_fault_def)
  have s: "scheduled demo_dir [1, 0] = [demo_dir ! 1] @ (demo_dir ! 0) # []"
    by (simp add: scheduled_def demo_dir_def)
  have n: "name (demo_dir ! 0) = ''bad''" "name (demo_dir ! 1) = ''good''"
    by (simp_all add: demo_dir_def)
  have b: "''b'' \<noteq> []" "''d'' \<noteq> []" by simp_all
  note r = conjunct2 [OF main_dies_with_first_failure [OF b, of demo_dir "[1, 0]" 2], rule_format,
      of "[demo_dir ! 1]" "demo_dir ! 0" "[]" "PlainError ''permission denied''"]
  from r s g f n show ?thesis by simp
qed

text \<open>
  C5, as the claim states it, fails. The file \<open>bad\<close> cannot be opened (or
  its first Save fails), and its goroutine is the first to reach its end:
  the process ends, and the upload of \<open>good\<close>, which would succeed, is cut
  off.
\<close>

theorem error_isolation_counterexample:
  "main ''b'' ''d'' 2 (Inr demo_dir) [0, 1] = Died ''bad'' (PlainError ''permission denied'') [] [''good'']
   \<and> main ''b'' ''d'' 2 (Inr demo_dir2) [0, 1] = Died ''bad'' (AwsError ''InvalidParameter'') [] [''good'']
   \<and> fst (uploadFile ''b'' ''d/good'' 2 [4, 5, 6] demo_world) = Done None"
  by (simp add: main_def goroutine_def demo_dir_def demo_dir2_def demo_world_def demo_empty_def
        demo_eval)


section \<open>Reading back what Save has written\<close>

lemma split_on_sep:
  "sep \<notin> set xs \<Longrightarrow> split_on sep (xs @ sep # ys) = xs # split_on sep ys"
  by (induction xs) auto

lemma split_on_none: "sep \<notin> set xs \<Longrightarrow> split_on sep xs = [xs]"
  by (induction xs) auto

lemma split_on_lines:
  "\<forall>l \<in> set ls. CHR 0x0A \<notin> set l \<Longrightarrow>
     split_on (CHR 0x0A) (concat (map (\<lambda>l. l @ [CHR 0x0A]) ls)) = ls @ [[]]"
  by (induction ls) (simp_all add: split_on_sep)

lemma ScanLines_lines:
  assumes "\<forall>l \<in> set ls. CHR 0x0A \<notin> set l"
  shows "ScanLines (concat (map (\<lambda>l. l @ [CHR 0x0A]) ls)) = map dropCR ls"
  by (simp add: ScanLines_def split_on_lines [OF assms])

lemma digit_val_digit_char: "d < 10 \<Longrightarrow> digit_val (digit_char d) = Some d"
proof -
  assume "d < 10"
  then have "d \<in> {0, 1, 2, 3, 4, 5, 6, 7, 8, 9}" by auto
  then show ?thesis by (auto simp: digit_val_def digit_char_def)
qed

lemma digit_char_in: "d < 10 \<Longrightarrow> digit_char d \<in> set ''0123456789''"
proof -
  assume "d < 10"
  then have "d \<in> {0, 1, 2, 3, 4, 5, 6, 7, 8, 9}" by auto
  then show ?thesis by (auto simp: digit_char_def)
qed

lemma dec_digits: "c \<in> set (dec n) \<Longrightarrow> c \<in> set ''0123456789''"
proof (induction n rule: dec.induct)
  case (1 n)
  show ?case
  proof (cases "n < 10")
    case True
    with "1.prems" have "c = digit_char n" by (subst (asm) dec.simps) simp
    with True digit_char_in show ?thesis by blast
  next
    case False
    with "1.prems" have "c \<in> set (dec (n div 10)) \<or> c = digit_char (n mod 10)"
      by (subst (asm) dec.simps) auto
    then show ?thesis
    proof
      assume "c \<in> set (dec (n div 10))"
      with "1.IH" False show ?thesis by blast
    next
      assume "c = digit_char (n mod 10)"
      moreover have "n mod 10 < 10" by simp
      ultimately show ?thesis using digit_char_in by blast
    qed
  qed
qed

lemma dec_not_empty: "dec n \<noteq> []"
  by (subst dec.simps) simp

lemma digits_val_append:
  "digits_val acc (xs @ ys) =
     (case digits_val acc xs of None \<Rightarrow> None | Some v \<Rightarrow> digits_val v ys)"
  by (induction xs arbitrary: acc) (simp_all split: option.splits)

lemma digits_val_dec: "digits_val 0 (dec n) = Some n"
proof (induction n rule: dec.induct)
  case (1 n)
  show ?case
  proof (cases "n < 10")
    case True
    then show ?thesis by (subst dec.simps) (simp add: digit_val_digit_char)
  next
    case False
    with "1.IH" have ih: "digits_val 0 (dec (n div 10)) = Some (n div 10)" by simp
    have "n mod 10 < 10" by simp
    note dv = digit_val_digit_char [OF this]
    from False show ?thesis
      by (subst dec.simps) (simp add: digits_val_append ih dv)
  qed
qed

lemma ParseInt_dec:
  assumes "n < 2 ^ 63"
  shows "ParseInt (dec n) = Some (int n)"
proof -
  obtain c cs where d: "dec n = c # cs" using dec_not_empty [of n] by (cases "dec n") auto
  then have "c \<in> set (dec n)" by simp
  then have "c \<in> set ''0123456789''" by (rule dec_digits)
  then have c: "c \<noteq> CHR ''+''" "c \<noteq> CHR ''-''" by auto
  have "ParseUint (c # cs) = Some n"
    using digits_val_dec [of n] by (simp add: ParseUint_def d)
  with c assms show ?thesis by (simp add: ParseInt_def d)
qed

lemma ParseInt_fmt_d: "0 \<le> i \<Longrightarrow> i < 2 ^ 63 \<Longrightarrow> ParseInt (fmt_d i) = Some i"
  using ParseInt_dec [of "nat i"] by (simp add: fmt_d_def nat_less_iff)

lemma fmt_d_chars: "0 \<le> i \<Longrightarrow> c \<in> set (fmt_d i) \<Longrightarrow> c \<in> set ''0123456789''"
  by (simp add: fmt_d_def dec_digits del: set_simps)

lemma fmt_d_no_sep: "0 \<le> i \<Longrightarrow> CHR '','' \<notin> set (fmt_d i) \<and> CHR 0x0A \<notin> set (fmt_d i)"
  using fmt_d_chars [of i "CHR '',''"] fmt_d_chars [of i "CHR 0x0A"] by auto

lemma fmt_d_last: "0 \<le> i \<Longrightarrow> fmt_d i \<noteq> [] \<and> last (fmt_d i) \<noteq> CHR 0x0D"
proof -
  assume i: "0 \<le> i"
  then have n: "fmt_d i \<noteq> []" by (simp add: fmt_d_def dec_not_empty)
  then have "last (fmt_d i) \<in> set (fmt_d i)" by simp
  from fmt_d_chars [OF i this] n show ?thesis by auto
qed


lemma fmt_part_line: "fmt_part p = part_line p @ [CHR 0x0A]"
  by (simp add: fmt_part_def part_line_def)

lemma split_part_line:
  assumes "wf_part p"
  shows "split_on (CHR '','') (part_line p) = [ETag p, fmt_d (PartNumber p), fmt_d (Size p)]"
proof -
  from assms have e: "CHR '','' \<notin> set (ETag p)"
    and n: "CHR '','' \<notin> set (fmt_d (PartNumber p))"
    and s: "CHR '','' \<notin> set (fmt_d (Size p))"
    using fmt_d_no_sep [of "PartNumber p"] fmt_d_no_sep [of "Size p"]
    by (simp_all add: wf_part_def)
  have "part_line p = ETag p @ CHR '','' # (fmt_d (PartNumber p) @ CHR '','' # fmt_d (Size p))"
    by (simp add: part_line_def)
  then show ?thesis
    by (simp only: split_on_sep [OF e] split_on_sep [OF n] split_on_none [OF s])
qed

lemma parse_part_line:
  assumes "wf_part p"
  shows "parse_part (part_line p) = Inr p"
proof -
  from assms have "ParseInt (fmt_d (PartNumber p)) = Some (PartNumber p)"
    and "ParseInt (fmt_d (Size p)) = Some (Size p)"
    by (simp_all add: wf_part_def ParseInt_fmt_d)
  then show ?thesis
    by (simp add: parse_part_def split_part_line [OF assms])
qed

lemma parse_parts_lines:
  "\<forall>p \<in> set ps. wf_part p \<Longrightarrow> parse_parts acc (map part_line ps) = Inr (acc @ ps)"
  by (induction ps arbitrary: acc) (simp_all add: parse_part_line)

lemma part_line_no_newline: "wf_part p \<Longrightarrow> CHR 0x0A \<notin> set (part_line p)"
  using fmt_d_no_sep [of "PartNumber p"] fmt_d_no_sep [of "Size p"]
  by (simp add: part_line_def wf_part_def)

lemma dropCR_part_line: "wf_part p \<Longrightarrow> dropCR (part_line p) = part_line p"
  using fmt_d_last [of "Size p"] by (simp add: dropCR_def part_line_def wf_part_def)

lemma checkpoint_content:
  "uid @ [CHR 0x0A] @ concat (map fmt_part ps)
     = concat (map (\<lambda>l. l @ [CHR 0x0A]) (uid # map part_line ps))"
  by (induction ps) (simp_all add: fmt_part_line)

lemma ScanLines_checkpoint:
  assumes "CHR 0x0A \<notin> set uid" and "uid = [] \<or> last uid \<noteq> CHR 0x0D"
    and "length uid < MaxScanTokenSize"
    and "\<forall>p \<in> set ps. wf_part p"
  shows "ScanLines (uid @ [CHR 0x0A] @ concat (map fmt_part ps)) = uid # map part_line ps"
proof -
  have "\<forall>l \<in> set (uid # map part_line ps). CHR 0x0A \<notin> set l"
    using assms(1,4) by (auto simp: part_line_no_newline)
  from ScanLines_lines [OF this]
  have "ScanLines (uid @ [CHR 0x0A] @ concat (map fmt_part ps))
          = map dropCR (uid # map part_line ps)"
    by (simp only: checkpoint_content)
  also have "\<dots> = uid # map part_line ps"
  proof -
    have a: "dropCR uid = uid" using assms(2) by (auto simp: dropCR_def)
    have b: "map dropCR (map part_line ps) = map part_line ps"
      using assms(4) by (induction ps) (simp_all add: dropCR_part_line)
    show ?thesis using a b by simp
  qed
  finally show ?thesis .
qed

lemma New_resume:
  assumes "faults w = []" and "ckpt_dir w = IsDir"
    and "ckpt_file w = Some (uid @ [CHR 0x0A] @ concat (map fmt_part ps))"
    and "CHR 0x0A \<notin> set uid" and "uid = [] \<or> last uid \<noteq> CHR 0x0D"
    and "length uid < MaxScanTokenSize"
    and "\<forall>p \<in> set ps. wf_part p"
  shows "New b f w = (Done \<lparr>uploadID = Some uid, parts = ps, bucket = b, key = f\<rparr>, w)"
proof -
  note sc = ScanLines_checkpoint [OF assms(4,5,6,7)]
  have pp: "parse_parts [] (map part_line ps) = Inr ps"
    using parse_parts_lines [OF assms(7), of "[]"] by simp
  show ?thesis
    using assms(1,2,3)
    by (simp add: New_def session_NewSession_def Let_def os_Stat_dir_def New_open_def os_OpenFile_def file_Stat_Size_def
          next_fault_none sc pp del: append.simps)
qed


section \<open>A killed run and its restart\<close>

lemma rounds_ok:
  assumes "0 \<le> ps" and "faults w = []" and "uploadID cp = Some u"
    and "uploads w u = Some st" and "ckpt_file w = Some c" and "ckpt_disk w = Some c"
  shows "\<exists>cursor'. rounds k ps F cursor cp w =
    (cursor',
     cp\<lparr>parts := parts cp @ partsOf (etag_of w) (length (parts cp))
                 (take k (buffers (nat ps) (drop cursor F)))\<rparr>,
     w\<lparr>uploads := (uploads w)(u \<mapsto> stored_after (etag_of w) (length (parts cp))
                 (take k (buffers (nat ps) (drop cursor F))) st),
        s3_log := s3_log w @ callsOf (etag_of w) u (length (parts cp))
                 (take k (buffers (nat ps) (drop cursor F))),
        ckpt_file := Some (c @ concat (map fmt_part (partsOf (etag_of w) (length (parts cp))
                 (take k (buffers (nat ps) (drop cursor F)))))),
        ckpt_disk := Some (c @ concat (map fmt_part (partsOf (etag_of w) (length (parts cp))
                 (take k (buffers (nat ps) (drop cursor F))))))\<rparr>)
    \<and> buffers (nat ps) (drop cursor' F) = drop k (buffers (nat ps) (drop cursor F))"
  using assms
proof (induction k arbitrary: cursor cp w st c)
  case 0
  have u: "(uploads w)(u \<mapsto> st) = uploads w"
    using "0.prems"(4) by (simp add: fun_upd_idem_iff)
  have w: "w\<lparr>ckpt_file := Some c, ckpt_disk := Some c\<rparr> = w"
    using "0.prems"(5,6) by (cases w) simp
  show ?case by (simp add: u w)
next
  case (Suc k)
  note body = loopBody_ok [OF Suc.prems(1,2,3,4,5), of F cursor]
  show ?case
  proof (cases "drop cursor F = [] \<or> ps = 0")
    case True
    then have e: "buffers (nat ps) (drop cursor F) = []"
      by (auto intro: buffers_empty)
    have u: "(uploads w)(u \<mapsto> st) = uploads w"
      using Suc.prems(4) by (simp add: fun_upd_idem_iff)
    have w: "w\<lparr>ckpt_file := Some c, ckpt_disk := Some c\<rparr> = w"
      using Suc.prems(5,6) by (cases w) simp
    show ?thesis
      using True by (simp add: body e u w)
  next
    case False
    let ?got = "take (min (nat ps) maxRW) (drop cursor F)"
    let ?b = "?got @ replicate (nat ps - length ?got) 0"
    let ?cursor' = "cursor + length ?got"
    let ?m = "length (parts cp)"
    let ?p = "\<lparr>ETag = etag_of w ?b, PartNumber = int ?m + 1, Size = int (length ?b)\<rparr>"
    let ?cp' = "cp\<lparr>parts := parts cp @ [?p]\<rparr>"
    let ?w' = "w\<lparr>uploads := (uploads w)(u \<mapsto> st(int ?m + 1 \<mapsto> (etag_of w ?b, ?b))),
                 s3_log := s3_log w @ [UploadPartCall (Some u) (int ?m + 1) ?b (Inr (etag_of w ?b))],
                 ckpt_file := Some (c @ fmt_part ?p),
                 ckpt_disk := Some (c @ fmt_part ?p)\<rparr>"
    from False Suc.prems(1) have n: "0 < nat ps" and d: "drop cursor F \<noteq> []" by auto
    have bs: "buffers (nat ps) (drop cursor F) = ?b # buffers (nat ps) (drop ?cursor' F)"
      by (rule buffers_step [OF n d])
    have nxt: "loopBody ps F cursor cp w = Next ?cursor' ?cp' ?w'"
      using False by (simp add: body bs)
    have a1: "faults ?w' = []" using Suc.prems(2) by simp
    have a2: "uploadID ?cp' = Some u" using Suc.prems(3) by simp
    have a3: "uploads ?w' u = Some (st(int ?m + 1 \<mapsto> (etag_of w ?b, ?b)))" by simp
    have a4: "ckpt_file ?w' = Some (c @ fmt_part ?p)" by simp
    have a5: "ckpt_disk ?w' = Some (c @ fmt_part ?p)" by simp
    from Suc.IH [OF Suc.prems(1) a1 a2 a3 a4 a5, of ?cursor'] obtain cursor2 where
      ih: "rounds k ps F ?cursor' ?cp' ?w' =
        (cursor2,
         ?cp'\<lparr>parts := parts ?cp' @ partsOf (etag_of ?w') (length (parts ?cp'))
                 (take k (buffers (nat ps) (drop ?cursor' F)))\<rparr>,
         ?w'\<lparr>uploads := (uploads ?w')(u \<mapsto> stored_after (etag_of ?w') (length (parts ?cp'))
                 (take k (buffers (nat ps) (drop ?cursor' F))) (st(int ?m + 1 \<mapsto> (etag_of w ?b, ?b)))),
            s3_log := s3_log ?w' @ callsOf (etag_of ?w') u (length (parts ?cp'))
                 (take k (buffers (nat ps) (drop ?cursor' F))),
            ckpt_file := Some ((c @ fmt_part ?p) @ concat (map fmt_part (partsOf (etag_of ?w')
                 (length (parts ?cp')) (take k (buffers (nat ps) (drop ?cursor' F)))))),
            ckpt_disk := Some ((c @ fmt_part ?p) @ concat (map fmt_part (partsOf (etag_of ?w')
                 (length (parts ?cp')) (take k (buffers (nat ps) (drop ?cursor' F))))))\<rparr>)"
      and rest: "buffers (nat ps) (drop cursor2 F) = drop k (buffers (nat ps) (drop ?cursor' F))"
      by blast
    have e1: "rounds (Suc k) ps F cursor cp w = rounds k ps F ?cursor' ?cp' ?w'"
      by (simp only: rounds.simps nxt step.case)
    show ?thesis
      using Suc.prems(1) rest
      by (intro exI [of _ cursor2]) (subst e1, subst ih, simp add: bs)
  qed
qed


lemma buffers_tl: "n \<le> maxRW \<Longrightarrow> tl (buffers n X) = buffers n (drop n X)"
proof (cases "n = 0 \<or> X = []")
  case True
  then show ?thesis by (auto simp: buffers_empty)
next
  case False
  assume "n \<le> maxRW"
  with False show ?thesis by (simp add: buffers_small [of n X])
qed

lemma buffers_drop:
  assumes "n \<le> maxRW"
  shows "buffers n (drop (j * n) F) = drop j (buffers n F)"
proof (induction j)
  case 0
  show ?case by simp
next
  case (Suc j)
  have "buffers n (drop (Suc j * n) F) = buffers n (drop n (drop (j * n) F))"
    by (simp add: add.commute)
  also have "\<dots> = tl (buffers n (drop (j * n) F))" by (simp only: buffers_tl [OF assms])
  also have "\<dots> = tl (drop j (buffers n F))" by (simp only: Suc.IH)
  also have "\<dots> = drop (Suc j) (buffers n F)" by (simp add: drop_Suc tl_drop)
  finally show ?case .
qed

lemma sizes_partsOf:
  "\<forall>b \<in> set bs. length b = n \<Longrightarrow>
     sum_list (map Size (partsOf et m bs)) = int n * int (length bs)"
  by (induction bs arbitrary: m) (simp_all add: algebra_simps)

lemma dec_length: "0 < k \<Longrightarrow> n < 10 ^ k \<Longrightarrow> length (dec n) \<le> k"
proof (induction n arbitrary: k rule: dec.induct)
  case (1 n)
  show ?case
  proof (cases "n < 10")
    case True
    with "1.prems" show ?thesis by (subst dec.simps) simp
  next
    case False
    obtain j where k: "k = Suc j" using "1.prems"(1) by (cases k) auto
    from False "1.prems"(2) have j: "0 < j" by (cases j) (auto simp: k)
    from "1.prems"(2) have "n div 10 < 10 ^ j" by (simp add: k less_mult_imp_div_less mult.commute)
    from "1.IH" [OF False j this] have "length (dec (n div 10)) \<le> j" .
    with False show ?thesis by (subst dec.simps) (simp add: k)
  qed
qed

lemma fmt_d_length: "0 \<le> i \<Longrightarrow> i < 2 ^ 63 \<Longrightarrow> length (fmt_d i) \<le> 19"
proof -
  assume i: "0 \<le> i" "i < 2 ^ 63"
  then have "nat i < 10 ^ 19" by (simp add: nat_less_iff)
  from dec_length [OF _ this] i(1) show ?thesis by (simp add: fmt_d_def)
qed

lemma wf_partsOf:
  assumes "\<forall>b \<in> set bs. tag_ok (et b) \<and> int (length b) < 2 ^ 63"
    and "int m + int (length bs) < 2 ^ 63"
  shows "\<forall>p \<in> set (partsOf et m bs). wf_part p"
  using assms
proof (induction bs arbitrary: m)
  case Nil
  show ?case by simp
next
  case (Cons b bs)
  from Cons.prems have "int (Suc m) + int (length bs) < 2 ^ 63" by simp
  with Cons.IH [of "Suc m"] Cons.prems(1) have "\<forall>p \<in> set (partsOf et (Suc m) bs). wf_part p"
    by simp
  moreover have "wf_part \<lparr>ETag = et b, PartNumber = int m + 1, Size = int (length b)\<rparr>"
  proof -
    from Cons.prems have n: "0 \<le> int m + 1" "int m + 1 < 2 ^ 63"
      and s: "0 \<le> int (length b)" "int (length b) < 2 ^ 63"
      and t: "tag_ok (et b)" by simp_all
    from fmt_d_length [OF n] fmt_d_length [OF s] t
    have "length (part_line \<lparr>ETag = et b, PartNumber = int m + 1, Size = int (length b)\<rparr>)
            < MaxScanTokenSize"
      by (simp add: part_line_def tag_ok_def)
    with n s t show ?thesis by (simp add: wf_part_def tag_ok_def)
  qed
  ultimately show ?case by simp
qed

lemma buffers_total:
  "0 < n \<Longrightarrow> n \<le> maxRW \<Longrightarrow> length (buffers n F) * n < length F + n"
proof -
  assume n: "0 < n" "n \<le> maxRW"
  have "(length F + n - 1) div n * n \<le> length F + n - 1" by simp
  also have "\<dots> < length F + n" using n by arith
  finally show ?thesis using n by (simp add: buffers_count)
qed

text \<open>
  The checkpoint that New reads back after \<open>k\<close> rounds, and where Seek puts
  the cursor for it: at \<open>k\<close> times the part size, whatever the reads have
  taken from the file.
\<close>

lemma recorded_parts:
  assumes ps: "0 \<le> ps" "ps < 2 ^ 63"
    and kb: "int (min k (length (buffers (nat ps) F))) < 2 ^ 63"
            "int (min k (length (buffers (nat ps) F))) * ps < 2 ^ 63"
            "int (min k (length (buffers (nat ps) F))) * ps \<le> max_offset w"
    and et: "\<forall>body. length body = nat ps \<longrightarrow> tag_ok (et body)"
  shows "(\<forall>p \<in> set (partsOf et 0 (take k (buffers (nat ps) F))). wf_part p)
       \<and> Seek \<lparr>uploadID = uid, parts = partsOf et 0 (take k (buffers (nat ps) F)),
                bucket = b, key = path\<rparr> 0 w
           = (None, min k (length (buffers (nat ps) F)) * nat ps)"
proof -
  let ?n = "nat ps"
  let ?Bs = "buffers ?n F"
  let ?k = "min k (length ?Bs)"
  let ?Pk = "partsOf et 0 (take k ?Bs)"
  let ?cp = "\<lparr>uploadID = uid, parts = ?Pk, bucket = b, key = path\<rparr>"
  have len: "\<forall>x \<in> set ?Bs. length x = ?n" using buffers_length by blast
  have lenk: "\<forall>x \<in> set (take k ?Bs). length x = ?n" using len by (auto dest: in_set_takeD)
  have wf: "\<forall>p \<in> set ?Pk. wf_part p"
  proof (rule wf_partsOf)
    show "\<forall>x \<in> set (take k ?Bs). tag_ok (et x) \<and> int (length x) < 2 ^ 63"
      using lenk ps et by simp
    show "int 0 + int (length (take k ?Bs)) < 2 ^ 63" using kb(1) by (simp add: min.commute)
  qed
  have sz: "sum_list (map Size ?Pk) = int ?n * int ?k"
    using sizes_partsOf [OF lenk, of et 0] by (simp add: min.commute)
  have pn: "int ?n = ps" using ps(1) by simp
  have s0: "0 \<le> sum_list (map Size (parts ?cp))" by (simp add: sz)
  have s1: "sum_list (map Size (parts ?cp)) < 2 ^ 63"
    using kb(2) ps(1) by (simp add: sz mult.commute)
  have s2: "sum_list (map Size (parts ?cp)) \<le> max_offset w"
    using kb(3) ps(1) by (simp add: sz mult.commute)
  have "nat (sum_list (map Size (parts ?cp))) = ?k * ?n"
    by (simp add: sz nat_mult_distrib mult.commute)
  with Seek_sum [OF s0 s1, of 0 w] s2 have sk: "Seek ?cp 0 w = (None, ?k * ?n)"
    by (simp only: if_True)
  from wf sk show ?thesis by simp
qed

text \<open>
  A run on what a killed run has left after \<open>k\<close> rounds: the first \<open>k\<close>
  parts are read from the checkpoint file, the file is read on from \<open>k\<close>
  times the part size, and the object is made of the \<open>k\<close> recorded buffers
  and the buffers of the rest of the file from there.
\<close>

lemma resumed_run:
  assumes ps: "0 \<le> ps" "ps < 2 ^ 63"
    and kb: "int (min k (length (buffers (nat ps) F))) < 2 ^ 63"
            "int (min k (length (buffers (nat ps) F))) * ps < 2 ^ 63"
            "int (min k (length (buffers (nat ps) F))) * ps \<le> max_offset wc"
    and w: "faults wc = []" "ckpt_dir wc = IsDir"
    and cf: "ckpt_file wc = Some (u @ [CHR 0x0A] @ concat (map fmt_part
                 (partsOf (etag_of wc) 0 (take k (buffers (nat ps) F)))))"
              "ckpt_disk wc = ckpt_file wc"
    and uid: "CHR 0x0A \<notin> set u" "u = [] \<or> last u \<noteq> CHR 0x0D" "length u < MaxScanTokenSize"
    and et: "\<forall>body. length body = nat ps \<longrightarrow> tag_ok (etag_of wc body)"
    and st: "uploads wc u = Some stc"
            "\<forall>j < min k (length (buffers (nat ps) F)).
                stc (int j + 1) = Some (etag_of wc (buffers (nat ps) F ! j), buffers (nat ps) F ! j)"
  shows "fst (uploadFile b path ps F wc) = Done None
       \<and> objects (snd (uploadFile b path ps F wc)) (TrimPrefix path)
           = Some (concat (take k (buffers (nat ps) F)
                @ buffers (nat ps) (drop (min k (length (buffers (nat ps) F)) * nat ps) F)))"
proof -
  let ?n = "nat ps"
  let ?Bs = "buffers ?n F"
  let ?et = "etag_of wc"
  let ?k = "min k (length ?Bs)"
  let ?K = "take k ?Bs"
  let ?R = "buffers ?n (drop (?k * ?n) F)"
  let ?Pk = "partsOf ?et 0 ?K"
  let ?cp = "\<lparr>uploadID = Some u, parts = ?Pk, bucket = b, key = path\<rparr>"
  let ?c = "u @ [CHR 0x0A] @ concat (map fmt_part ?Pk)"
  from recorded_parts [OF ps kb et, of "Some u" b path]
  have wf: "\<forall>p \<in> set ?Pk. wf_part p" and sk: "Seek ?cp 0 wc = (None, ?k * ?n)"
    by simp_all
  have n: "New b path wc = (Done ?cp, wc)"
    by (rule New_resume [OF w cf(1) uid wf])
  have lK: "length ?K = ?k" by (simp add: min.commute)
  have lp: "length ?Pk = ?k" by (simp add: length_partsOf min.commute)
  let ?P2 = "partsOf ?et ?k ?R"
  let ?st2 = "stored_after ?et ?k ?R stc"
  let ?cp2 = "?cp\<lparr>parts := ?Pk @ ?P2\<rparr>"
  let ?w2 = "wc\<lparr>uploads := (uploads wc)(u \<mapsto> ?st2),
        s3_log := s3_log wc @ callsOf ?et u ?k ?R,
        ckpt_file := Some (?c @ concat (map fmt_part ?P2)),
        ckpt_disk := Some (?c @ concat (map fmt_part ?P2))\<rparr>"
  have l: "uploadLoop ps F (?k * ?n) ?cp wc = (Break, ?cp2, ?w2)"
    using uploadLoop_ok [OF ps(1) w(1) _ st(1) cf(1), where cp = ?cp and cursor = "?k * ?n"
                          and F = F] cf
    by (simp add: lp)
  have all: "?Pk @ ?P2 = partsOf ?et 0 (?K @ ?R)"
    using partsOf_append [of ?et 0 ?K ?R] by (simp only: lK add_0)
  have look: "\<forall>i < length (?K @ ?R). ?st2 (int (0 + i) + 1) = Some (?et ((?K @ ?R) ! i), (?K @ ?R) ! i)"
  proof (intro allI impI)
    fix i assume i: "i < length (?K @ ?R)"
    show "?st2 (int (0 + i) + 1) = Some (?et ((?K @ ?R) ! i), (?K @ ?R) ! i)"
    proof (cases "i < ?k")
      case True
      then have "\<not> (?k \<le> i \<and> i < ?k + length ?R)" by arith
      then have "?st2 (int i + 1) = stc (int i + 1)"
        by (subst stored_after_lookup) (simp only: if_False)
      with st(2) True have "?st2 (int i + 1) = Some (?et (?Bs ! i), ?Bs ! i)" by simp
      moreover from True have "(?K @ ?R) ! i = ?Bs ! i"
        by (simp add: nth_append lK)
      ultimately show ?thesis by simp
    next
      case False
      from False have a: "?k \<le> i" by (simp only: not_less)
      from i have "i < length ?K + length ?R" by (simp only: length_append)
      then have "i < ?k + length ?R" by (simp only: lK)
      with a have "?k \<le> i \<and> i < ?k + length ?R" ..
      then have "?st2 (int i + 1) = Some (?et (?R ! (i - ?k)), ?R ! (i - ?k))"
        by (subst stored_after_lookup) (simp only: simp_thms if_True)
      moreover from False have "(?K @ ?R) ! i = ?R ! (i - ?k)"
        by (simp only: nth_append lK if_False)
      ultimately show ?thesis by simp
    qed
  qed
  have asm: "assemble ?st2 (toS3CompletedParts (parts ?cp2)) = Some (concat (?K @ ?R))"
    using assemble_partsOf [OF look] by (simp add: all)
  have c: "Complete ?cp2 ?w2 =
     (None, ?w2\<lparr>uploads := (uploads ?w2)(u := None),
              objects := (objects ?w2)(TrimPrefix (key ?cp2) \<mapsto> concat (?K @ ?R)),
              s3_log := s3_log ?w2 @ [CompleteCall (Some u) (toS3CompletedParts (parts ?cp2)) None]\<rparr>)"
    by (rule Complete_ok [OF _ _ _ asm]) (simp_all add: w)
  have "uploadFile b path ps F wc =
     (Done None, ?w2\<lparr>uploads := (uploads ?w2)(u := None),
              objects := (objects ?w2)(TrimPrefix (key ?cp2) \<mapsto> concat (?K @ ?R)),
              s3_log := s3_log ?w2 @ [CompleteCall (Some u) (toS3CompletedParts (parts ?cp2)) None]\<rparr>)"
    unfolding uploadFile_def
    by (simp only: os_Open_ok [OF w(1)] n sk l c
          prod.case option.case run.case loop_end.case snd_conv)
  then show ?thesis by simp
qed


lemma file_Read_ok:
  "faults w = [] \<Longrightarrow>
     file_Read len F cursor w =
       (Inr (length (take (min len maxRW) (drop cursor F)),
             take (min len maxRW) (drop cursor F)
               @ replicate (len - length (take (min len maxRW) (drop cursor F))) 0), w)"
  by (simp add: file_Read_def next_fault_none Let_def)

lemma killed_state:
  assumes ps: "0 \<le> ps"
    and w: "faults w = []" "ckpt_file w = None" "ckpt_dir w \<noteq> NotDir"
  shows "\<exists>stc.
      faults (killed k inSave b path ps F w) = []
    \<and> ckpt_dir (killed k inSave b path ps F w) = IsDir
    \<and> etag_of (killed k inSave b path ps F w) = etag_of w
    \<and> max_offset (killed k inSave b path ps F w) = max_offset w
    \<and> ckpt_file (killed k inSave b path ps F w) =
        Some (issue_id w @ [CHR 0x0A] @ concat (map fmt_part
               (partsOf (etag_of w) 0 (take k (buffers (nat ps) F)))))
    \<and> ckpt_disk (killed k inSave b path ps F w) = ckpt_file (killed k inSave b path ps F w)
    \<and> uploads (killed k inSave b path ps F w) (issue_id w) = Some stc
    \<and> (\<forall>j < min k (length (buffers (nat ps) F)).
          stc (int j + 1) = Some (etag_of w (buffers (nat ps) F ! j), buffers (nat ps) F ! j))"
proof -
  let ?u = "issue_id w"
  let ?n = "nat ps"
  let ?Bs = "buffers ?n F"
  let ?et = "etag_of w"
  let ?cp1 = "\<lparr>uploadID = Some ?u, parts = [], bucket = b, key = path\<rparr>"
  let ?w1 = "w\<lparr>uploads := (uploads w)(?u \<mapsto> Map.empty),
               s3_log := s3_log w @ [CreateCall (TrimPrefix path) (Inr ?u)],
               ckpt_dir := IsDir,
               ckpt_file := Some (?u @ [CHR 0x0A]),
               ckpt_disk := Some (?u @ [CHR 0x0A])\<rparr>"
  let ?stk = "stored_after ?et 0 (take k ?Bs) Map.empty"
  let ?c = "?u @ [CHR 0x0A] @ concat (map fmt_part (partsOf ?et 0 (take k ?Bs)))"
  have n: "New b path w = (Done ?cp1, ?w1)"
    by (rule New_fresh [OF w])
  from rounds_ok [OF ps, of ?w1 ?cp1 ?u Map.empty "?u @ [CHR 0x0A]" k F 0]
  obtain cursor' cpk wk where
    r: "rounds k ps F 0 ?cp1 ?w1 = (cursor', cpk, wk)"
    and cpk: "uploadID cpk = Some ?u" "length (parts cpk) = min k (length ?Bs)"
    and wk: "faults wk = []" "ckpt_dir wk = IsDir" "etag_of wk = ?et"
            "ckpt_file wk = Some ?c" "ckpt_disk wk = Some ?c" "uploads wk ?u = Some ?stk"
            "max_offset wk = max_offset w"
    using w(1) by (auto simp: length_partsOf min.commute)
  have lk: "\<forall>j < min k (length ?Bs). ?stk (int j + 1) = Some (?et (?Bs ! j), ?Bs ! j)"
  proof (intro allI impI)
    fix j assume j: "j < min k (length ?Bs)"
    then have "0 \<le> j \<and> j < 0 + length (take k ?Bs)" by simp
    then have "?stk (int j + 1) = Some (?et (take k ?Bs ! (j - 0)), take k ?Bs ! (j - 0))"
      by (subst stored_after_lookup) (simp only: simp_thms if_True)
    with j show "?stk (int j + 1) = Some (?et (?Bs ! j), ?Bs ! j)" by simp
  qed
  have k0: "killed k inSave b path ps F w =
      (if inSave
       then (case file_Read ?n F cursor' wk of
               (Inr (n, buffer), w3) \<Rightarrow>
                 if n = 0 then crash w3
                 else crash (snd (UploadPart (uploadID cpk) (int (length (parts cpk)) + 1) buffer w3))
             | (Inl err, w3) \<Rightarrow> crash w3)
       else crash wk)"
    unfolding killed_def
    by (simp only: os_Open_ok [OF w(1)] n Seek_no_parts [of ?cp1, simplified] r
          prod.case run.case snd_conv)
  show ?thesis
  proof (cases "inSave \<and> take (min ?n maxRW) (drop cursor' F) \<noteq> []")
    case False
    then have "killed k inSave b path ps F w = crash wk"
      by (auto simp: k0 file_Read_ok [OF wk(1)])
    with wk lk show ?thesis by (simp add: crash_def)
  next
    case True
    let ?got = "take (min ?n maxRW) (drop cursor' F)"
    let ?buf = "?got @ replicate (?n - length ?got) 0"
    let ?m = "min k (length ?Bs)"
    have up: "UploadPart (Some ?u) (int ?m + 1) ?buf wk =
        (Inr (etag_of wk ?buf),
         logged (UploadPartCall (Some ?u) (int ?m + 1) ?buf (Inr (etag_of wk ?buf)))
           (wk\<lparr>uploads := (uploads wk)(?u \<mapsto> ?stk(int ?m + 1 \<mapsto> (etag_of wk ?buf, ?buf)))\<rparr>))"
      using wk by (simp add: UploadPart_def next_fault_none)
    from True have g: "length ?got \<noteq> 0" and inS: "inSave" by simp_all
    have "killed k inSave b path ps F w =
        crash (snd (UploadPart (uploadID cpk) (int (length (parts cpk)) + 1) ?buf wk))"
      by (subst k0) (simp only: inS if_True file_Read_ok [OF wk(1)] prod.case sum.case g if_False)
    then have "killed k inSave b path ps F w =
        crash (logged (UploadPartCall (Some ?u) (int ?m + 1) ?buf (Inr (etag_of wk ?buf)))
           (wk\<lparr>uploads := (uploads wk)(?u \<mapsto> ?stk(int ?m + 1 \<mapsto> (etag_of wk ?buf, ?buf)))\<rparr>))"
      by (simp only: cpk up snd_conv)
    moreover have "\<forall>j < ?m. (?stk(int ?m + 1 \<mapsto> (etag_of wk ?buf, ?buf))) (int j + 1)
        = Some (?et (?Bs ! j), ?Bs ! j)"
    proof (intro allI impI)
      fix j assume j: "j < ?m"
      then have ne: "int j + 1 \<noteq> int ?m + 1" by linarith
      from lk j have "?stk (int j + 1) = Some (?et (?Bs ! j), ?Bs ! j)" by blast
      then show "(?stk(int ?m + 1 \<mapsto> (etag_of wk ?buf, ?buf))) (int j + 1)
          = Some (?et (?Bs ! j), ?Bs ! j)"
        by (simp only: fun_upd_other [OF ne])
    qed
    ultimately show ?thesis using wk by (simp add: crash_def logged_def)
  qed
qed


lemma uploadLoop_exhausted:
  assumes "0 \<le> ps" and "faults w = []" and "buffers (nat ps) (drop cursor F) = []"
  shows "uploadLoop ps F cursor cp w = (Break, cp, w)"
proof -
  from assms(3) have "nat ps = 0 \<or> drop cursor F = []"
    by (subst (asm) buffers.simps) (simp split: if_splits)
  then have t: "take (min (nat ps) maxRW) (drop cursor F) = []" by auto
  have rd: "file_Read (nat ps) F cursor w =
      (Inr (length ([] :: byte list), [] @ replicate (nat ps - length ([] :: byte list)) 0), w)"
    using file_Read_ok [OF assms(2), of "nat ps" F cursor] by (simp only: t)
  have "loopBody ps F cursor cp w = Stop Break cp w"
    using assms(1) by (simp add: loopBody_def rd)
  then show ?thesis by (subst uploadLoop.simps) simp
qed

lemma Complete_gone:
  assumes "faults w = []" and "uploadID cp = Some u" and "uploads w u = None"
  shows "fst (Complete cp w) = None \<and> objects (snd (Complete cp w)) = objects w"
  using assms
  by (simp add: Complete_def CompleteMultipartUpload_def next_fault_none logged_def)

text \<open>
  Part sizes that one read fills: the offsets of the parts of a file stay
  below the length of the file with one more part.
\<close>

lemma offsets_small:
  assumes "0 \<le> ps" and "ps \<le> int maxRW"
  shows "int (min k (length (buffers (nat ps) F))) * ps \<le> int (length F) + ps
       \<and> int (min k (length (buffers (nat ps) F))) \<le> int (length F) + ps"
proof (cases "nat ps = 0")
  case True
  with assms(1) show ?thesis by (simp add: buffers_empty)
next
  case False
  let ?n = "nat ps"
  let ?Bs = "buffers ?n F"
  let ?k = "min k (length ?Bs)"
  from False assms have n: "0 < ?n" "?n \<le> maxRW" by simp_all
  have pn: "int ?n = ps" using assms(1) by simp
  have "?k * ?n \<le> length ?Bs * ?n" by simp
  also have "\<dots> < length F + ?n" by (rule buffers_total [OF n])
  finally have a: "?k * ?n < length F + ?n" .
  then have "int (?k * ?n) < int (length F + ?n)" by (simp only: of_nat_less_iff)
  then have 1: "int ?k * ps < int (length F) + ps" using assms(1) by simp
  from n(1) have "?k \<le> ?k * ?n" by (cases "nat ps") simp_all
  from this a have "?k < length F + ?n" by (rule le_less_trans)
  then have "int ?k < int (length F + ?n)" by (simp only: of_nat_less_iff)
  then have 2: "int ?k < int (length F) + ps" using assms(1) by simp
  from 1 2 show ?thesis by simp
qed

lemma rerun_after_completion:
  assumes "0 \<le> ps" and "ps \<le> int maxRW"
    and "int (length F) + ps < 2 ^ 63" and "int (length F) + ps \<le> max_offset w"
    and "faults w = []" and "ckpt_file w = None" and "ckpt_dir w \<noteq> NotDir"
    and "CHR 0x0A \<notin> set (issue_id w)" and "issue_id w = [] \<or> last (issue_id w) \<noteq> CHR 0x0D"
    and "length (issue_id w) < MaxScanTokenSize"
    and "\<forall>body. length body = nat ps \<longrightarrow> tag_ok (etag_of w body)"
  shows "fst (uploadFile b path ps F (completed b path ps F w)) = Done None
       \<and> objects (snd (uploadFile b path ps F (completed b path ps F w))) (TrimPrefix path)
           = Some (concat (buffers (nat ps) F))"
proof -
  let ?u = "issue_id w"
  let ?n = "nat ps"
  let ?Bs = "buffers ?n F"
  let ?P = "partsOf (etag_of w) 0 ?Bs"
  let ?wc = "completed b path ps F w"
  let ?cp = "\<lparr>uploadID = Some ?u, parts = ?P, bucket = b, key = path\<rparr>"
  note f = uploadFile_fresh [OF assms(1,5,6,7), of b path F]
  have c: "faults ?wc = []" "ckpt_dir ?wc = IsDir"
    "ckpt_file ?wc = Some (?u @ [CHR 0x0A] @ concat (map fmt_part ?P))"
    "uploads ?wc ?u = None" "objects ?wc (TrimPrefix path) = Some (concat ?Bs)"
    "max_offset ?wc = max_offset w"
    using assms(5) by (simp_all add: completed_def crash_def f)
  have n0: "?n \<le> maxRW" using assms(1,2) by simp
  from offsets_small [OF assms(1,2), of "length ?Bs" F] assms(3,4)
  have kb: "int (min (length ?Bs) (length ?Bs)) < 2 ^ 63"
           "int (min (length ?Bs) (length ?Bs)) * ps < 2 ^ 63"
           "int (min (length ?Bs) (length ?Bs)) * ps \<le> max_offset ?wc"
    by (simp_all add: c(6))
  have p63: "ps < 2 ^ 63" using assms(3) by simp
  from recorded_parts [OF assms(1) p63 kb assms(11), of "Some ?u" b path]
  have wf: "\<forall>p \<in> set ?P. wf_part p" and sk: "Seek ?cp 0 ?wc = (None, length ?Bs * ?n)"
    by simp_all
  have n: "New b path ?wc = (Done ?cp, ?wc)"
    by (rule New_resume [OF c(1,2,3) assms(8,9,10) wf])
  have "buffers ?n (drop (length ?Bs * ?n) F) = []"
    by (simp add: buffers_drop [OF n0])
  then have l: "uploadLoop ps F (length ?Bs * ?n) ?cp ?wc = (Break, ?cp, ?wc)"
    by (rule uploadLoop_exhausted [OF assms(1) c(1)])
  have g: "fst (Complete ?cp ?wc) = None \<and> objects (snd (Complete ?cp ?wc)) = objects ?wc"
    by (rule Complete_gone [OF c(1) _ c(4)]) simp
  obtain r w3 where cm: "Complete ?cp ?wc = (r, w3)" by (cases "Complete ?cp ?wc")
  have "uploadFile b path ps F ?wc = (Done r, w3)"
    unfolding uploadFile_def
    by (simp only: os_Open_ok [OF c(1)] n sk l cm prod.case option.case run.case loop_end.case
          snd_conv)
  with g c(5) cm show ?thesis by simp
qed

text \<open>
  Where one read fills the buffer (a part size of at most \<open>maxRW\<close>), a
  restart makes the object of the run that is not interrupted. A run of the
  driver on a file without checkpoint is killed after \<open>k\<close> rounds of its loop
  (any \<open>k\<close>, also after the last round and before Complete), or in the round
  after them when the part has reached the service and its record has not
  reached the checkpoint file, or after Complete. What it leaves is the
  service as it is and the checkpoint file as it is on stable storage. The
  driver is then run again on the same file with the same part size, and no
  call fails. This second run returns nil, and the object it leaves is byte
  for byte the object of the uninterrupted run: the buffers of the file one
  after the other.

  The assumptions say that no call fails in the runs, that the file with one
  more part fits the \<open>int64\<close> offset and the file system, and that the
  tokens of the service can be written to the checkpoint file and read back:
  no line feed in the upload id and no carriage return at its end, no comma
  and no line feed in an entity tag, and lines that the scanner takes.
\<close>

lemma resume_idempotence_upto_maxRW:
  assumes "0 \<le> partSize" and "partSize \<le> int maxRW"
    and "int (length F) + partSize < 2 ^ 63" and "int (length F) + partSize \<le> max_offset w"
    and "faults w = []" and "ckpt_file w = None" and "ckpt_dir w \<noteq> NotDir"
    and "CHR 0x0A \<notin> set (issue_id w)" and "issue_id w = [] \<or> last (issue_id w) \<noteq> CHR 0x0D"
    and "length (issue_id w) < MaxScanTokenSize"
    and "\<forall>body. length body = nat partSize \<longrightarrow> tag_ok (etag_of w body)"
  shows "fst (uploadFile b path partSize F (killed k inSave b path partSize F w)) = Done None
       \<and> objects (snd (uploadFile b path partSize F (killed k inSave b path partSize F w)))
             (TrimPrefix path)
           = objects (snd (uploadFile b path partSize F w)) (TrimPrefix path)
       \<and> objects (snd (uploadFile b path partSize F w)) (TrimPrefix path)
           = Some (concat (buffers (nat partSize) F))
       \<and> fst (uploadFile b path partSize F (completed b path partSize F w)) = Done None
       \<and> objects (snd (uploadFile b path partSize F (completed b path partSize F w)))
             (TrimPrefix path)
           = objects (snd (uploadFile b path partSize F w)) (TrimPrefix path)"
proof -
  let ?wc = "killed k inSave b path partSize F w"
  let ?n = "nat partSize"
  let ?Bs = "buffers ?n F"
  from killed_state [OF assms(1,5,6,7), of k inSave b path F] obtain stc where
    c: "faults ?wc = []" "ckpt_dir ?wc = IsDir" "etag_of ?wc = etag_of w"
       "max_offset ?wc = max_offset w"
       "ckpt_file ?wc = Some (issue_id w @ [CHR 0x0A] @ concat (map fmt_part
               (partsOf (etag_of w) 0 (take k ?Bs))))"
       "ckpt_disk ?wc = ckpt_file ?wc"
       "uploads ?wc (issue_id w) = Some stc"
       "\<forall>j < min k (length ?Bs). stc (int j + 1) = Some (etag_of w (?Bs ! j), ?Bs ! j)"
    by blast
  have n0: "?n \<le> maxRW" using assms(1,2) by simp
  have r: "fst (uploadFile b path partSize F ?wc) = Done None
       \<and> objects (snd (uploadFile b path partSize F ?wc)) (TrimPrefix path)
           = Some (concat ?Bs)"
  proof -
    have cf: "ckpt_file ?wc = Some (issue_id w @ [CHR 0x0A] @ concat (map fmt_part
               (partsOf (etag_of ?wc) 0 (take k ?Bs))))"
      using c(5) by (simp only: c(3))
    have et: "\<forall>body. length body = ?n \<longrightarrow> tag_ok (etag_of ?wc body)"
      using assms(11) by (simp add: c(3))
    have lk: "\<forall>j < min k (length ?Bs). stc (int j + 1) = Some (etag_of ?wc (?Bs ! j), ?Bs ! j)"
      using c(8) by (simp only: c(3))
    from offsets_small [OF assms(1,2), of k F] assms(3,4)
    have kb: "int (min k (length ?Bs)) < 2 ^ 63"
             "int (min k (length ?Bs)) * partSize < 2 ^ 63"
             "int (min k (length ?Bs)) * partSize \<le> max_offset ?wc"
      by (simp_all add: c(4))
    have p63: "partSize < 2 ^ 63" using assms(3) by simp
    have "buffers ?n (drop (min k (length ?Bs) * ?n) F) = drop k ?Bs"
      by (simp add: buffers_drop [OF n0] min_def)
    with resumed_run [OF assms(1) p63 kb c(1,2) cf c(6) assms(8,9,10) et c(7) lk, of b path]
    show ?thesis by simp
  qed
  have u: "objects (snd (uploadFile b path partSize F w)) (TrimPrefix path)
           = Some (concat ?Bs)"
    by (simp add: uploadFile_fresh [OF assms(1,5,6,7)])
  note a = rerun_after_completion [OF assms, of b path]
  from r u a show ?thesis by simp
qed

lemma demo_etag_ok: "length body < 2 ^ 32 \<Longrightarrow> tag_ok (demo_etag body)"
proof -
  assume l: "length body < 2 ^ 32"
  have "sum_list (map unat xs) \<le> 255 * length xs" for xs :: "byte list"
  proof (induction xs)
    case Nil
    show ?case by simp
  next
    case (Cons x xs)
    have "unat x < 2 ^ 8" using unsigned_less [of x] by simp
    with Cons show ?case by simp
  qed
  from this [of body] l have "sum_list (map unat body) < 10 ^ 19" by simp
  from dec_length [OF _ this] have "length (dec (sum_list (map unat body))) \<le> 19" by simp
  then show ?thesis
    using dec_digits [of "CHR '',''" "sum_list (map unat body)"]
          dec_digits [of "CHR 0x0A" "sum_list (map unat body)"]
    by (auto simp: demo_etag_def tag_ok_def MaxScanTokenSize_def)
qed

lemma buffers_demo: "buffers 2 [1, 2, 3, 4, 5] = [[1, 2], [3, 4], [5, 0]]"
  by (simp add: buffers.simps maxRW_def)

lemma resume_idempotence_demo:
  "fst (uploadFile ''b'' ''d/f'' 2 [1, 2, 3, 4, 5]
          (killed 1 True ''b'' ''d/f'' 2 [1, 2, 3, 4, 5] demo_world)) = Done None
   \<and> objects (snd (uploadFile ''b'' ''d/f'' 2 [1, 2, 3, 4, 5]
          (killed 1 True ''b'' ''d/f'' 2 [1, 2, 3, 4, 5] demo_world))) ''d/f''
       = Some [1, 2, 3, 4, 5, 0]
   \<and> objects (snd (uploadFile ''b'' ''d/f'' 2 [1, 2, 3, 4, 5] demo_world)) ''d/f''
       = Some [1, 2, 3, 4, 5, 0]"
proof -
  have h: "(0 :: int) \<le> 2" "(2 :: int) \<le> int maxRW"
    "int (length [1 :: byte, 2, 3, 4, 5]) + 2 < 2 ^ 63"
    "int (length [1 :: byte, 2, 3, 4, 5]) + 2 \<le> max_offset demo_world"
    "faults demo_world = []" "ckpt_file demo_world = None" "ckpt_dir demo_world \<noteq> NotDir"
    "CHR 0x0A \<notin> set (issue_id demo_world)"
    "issue_id demo_world = [] \<or> last (issue_id demo_world) \<noteq> CHR 0x0D"
    "length (issue_id demo_world) < MaxScanTokenSize"
    by (simp_all add: demo_world_def maxRW_def MaxScanTokenSize_def)
  have e: "\<forall>body. length body = nat 2 \<longrightarrow> tag_ok (etag_of demo_world body)"
    using demo_etag_ok by (simp add: demo_world_def)
  from resume_idempotence_upto_maxRW [OF h e, of "''b''" "''d/f''" 1 True] show ?thesis
    by (simp add: buffers_demo)
qed

text \<open>
  The buffers of a file of \<open>maxRW + 1\<close> bytes that is read with a part size
  of \<open>maxRW + 1\<close>: the first read takes \<open>maxRW\<close> bytes, the second the last
  byte.
\<close>

lemma buffers_above_maxRW:
  assumes "length F = Suc maxRW"
  shows "buffers (Suc maxRW) F =
           [take maxRW F @ [0], drop maxRW F @ replicate maxRW 0]"
proof -
  have m: "min (Suc maxRW) maxRW = maxRW" by simp
  have f: "F \<noteq> []" using assms by auto
  have d: "drop maxRW F \<noteq> []" using assms by simp
  have t: "take maxRW (drop maxRW F) = drop maxRW F" using assms maxRW_pos by simp
  have l: "length (drop maxRW F) = 1" using assms by simp
  have "buffers (Suc maxRW) F =
      (take maxRW F @ replicate (Suc maxRW - length (take maxRW F)) 0)
        # buffers (Suc maxRW) (drop maxRW F)"
    using f by (subst buffers.simps) (simp only: m if_False simp_thms nat.simps)
  also have "buffers (Suc maxRW) (drop maxRW F) =
      (take maxRW (drop maxRW F) @ replicate (Suc maxRW - length (take maxRW (drop maxRW F))) 0)
        # buffers (Suc maxRW) (drop maxRW (drop maxRW F))"
    using d by (subst buffers.simps) (simp only: m if_False simp_thms nat.simps)
  also have "buffers (Suc maxRW) (drop maxRW (drop maxRW F)) = []"
    using assms maxRW_pos by (intro buffers_empty) simp
  finally show ?thesis using assms maxRW_pos by (simp add: t l min_def)
qed

lemma resume_above_maxRW:
  assumes "length F = Suc maxRW"
    and "faults w = []" and "ckpt_file w = None" and "ckpt_dir w \<noteq> NotDir"
    and "int (Suc maxRW) \<le> max_offset w"
    and "CHR 0x0A \<notin> set (issue_id w)" and "issue_id w = [] \<or> last (issue_id w) \<noteq> CHR 0x0D"
    and "length (issue_id w) < MaxScanTokenSize"
    and "\<forall>body. length body = Suc maxRW \<longrightarrow> tag_ok (etag_of w body)"
  shows "fst (uploadFile b path (int (Suc maxRW)) F w) = Done None
       \<and> objects (snd (uploadFile b path (int (Suc maxRW)) F w)) (TrimPrefix path)
           = Some (take maxRW F @ [0] @ drop maxRW F @ replicate maxRW 0)
       \<and> fst (uploadFile b path (int (Suc maxRW)) F
                (killed 1 False b path (int (Suc maxRW)) F w)) = Done None
       \<and> objects (snd (uploadFile b path (int (Suc maxRW)) F
                (killed 1 False b path (int (Suc maxRW)) F w))) (TrimPrefix path)
           = Some (take maxRW F @ [0])"
proof -
  let ?ps = "int (Suc maxRW)"
  let ?wc = "killed 1 False b path ?ps F w"
  let ?Bs = "buffers (nat ?ps) F"
  have ps: "0 \<le> ?ps" by simp
  have np: "nat ?ps = Suc maxRW" by simp
  have Bs: "?Bs = [take maxRW F @ [0], drop maxRW F @ replicate maxRW 0]"
    by (simp only: np buffers_above_maxRW [OF assms(1)])
  have fr: "fst (uploadFile b path ?ps F w) = Done None
       \<and> objects (snd (uploadFile b path ?ps F w)) (TrimPrefix path)
           = Some (take maxRW F @ [0] @ drop maxRW F @ replicate maxRW 0)"
    by (simp add: uploadFile_fresh [OF ps assms(2,3,4)] buffers_above_maxRW [OF assms(1)]
          del: of_nat_Suc)
  from killed_state [OF ps assms(2,3,4), of 1 False b path F] obtain stc where
    c: "faults ?wc = []" "ckpt_dir ?wc = IsDir" "etag_of ?wc = etag_of w"
       "max_offset ?wc = max_offset w"
       "ckpt_file ?wc = Some (issue_id w @ [CHR 0x0A] @ concat (map fmt_part
               (partsOf (etag_of w) 0 (take 1 ?Bs))))"
       "ckpt_disk ?wc = ckpt_file ?wc"
       "uploads ?wc (issue_id w) = Some stc"
       "\<forall>j < min 1 (length ?Bs). stc (int j + 1) = Some (etag_of w (?Bs ! j), ?Bs ! j)"
    by blast
  have k: "min 1 (length ?Bs) = 1" by (simp only: Bs) simp
  have cf: "ckpt_file ?wc = Some (issue_id w @ [CHR 0x0A] @ concat (map fmt_part
               (partsOf (etag_of ?wc) 0 (take 1 ?Bs))))"
    using c(5) by (simp only: c(3))
  have et: "\<forall>body. length body = nat ?ps \<longrightarrow> tag_ok (etag_of ?wc body)"
    using assms(9) by (simp only: c(3) np)
  have lk: "\<forall>j < min 1 (length ?Bs). stc (int j + 1) = Some (etag_of ?wc (?Bs ! j), ?Bs ! j)"
    using c(8) by (simp only: c(3))
  have m63: "int (Suc maxRW) < 2 ^ 63" by (simp add: maxRW_def)
  have kb: "int (min 1 (length ?Bs)) < 2 ^ 63"
           "int (min 1 (length ?Bs)) * ?ps < 2 ^ 63"
           "int (min 1 (length ?Bs)) * ?ps \<le> max_offset ?wc"
    using assms(5) m63 by (simp_all only: k c(4) of_nat_1 mult_1)
  have e: "min 1 (length ?Bs) * nat ?ps = length F" by (simp only: k assms(1))
  have "drop (min 1 (length ?Bs) * nat ?ps) F = []"
    by (simp only: e drop_all order_refl)
  then have rest: "buffers (nat ?ps) (drop (min 1 (length ?Bs) * nat ?ps) F) = []"
    by (simp add: buffers_empty)
  have tk: "take 1 ?Bs = [take maxRW F @ [0]]" by (simp only: Bs) simp
  from resumed_run [OF ps m63 kb c(1,2) cf c(6) assms(6,7,8) et c(7) lk, of b path]
  have "fst (uploadFile b path ?ps F ?wc) = Done None
       \<and> objects (snd (uploadFile b path ?ps F ?wc)) (TrimPrefix path)
           = Some (take maxRW F @ [0])"
    by (simp only: rest tk) simp
  with fr show ?thesis by simp
qed

text \<open>
  C1 fails on the code. One call of \<open>file.Read\<close> takes at most \<open>1 << 30\<close>
  bytes, the driver reads once for a part and hands the whole buffer to Save,
  and Save records the length of the buffer as the size of the part. With a
  part size above \<open>1 << 30\<close> the cursor of the running process is then behind
  the offset that a restart computes from the recorded sizes, and the restart
  skips what lies between. For a file of 1073741825 bytes and a part size of
  1073741825, with no call failing: the run that is not interrupted uploads
  two parts (the first 1073741824 bytes of the file and a zero byte, then the
  last byte of the file and 1073741824 zero bytes) and leaves an object of
  2147483650 bytes; a run that is killed after its first round, when one part
  is recorded on stable storage, and is then started again seeks to offset
  1073741825, reads nothing, and completes the upload with the one part: its
  object has 1073741825 bytes, and the last byte of the file is not in it.
\<close>

theorem resume_breaks_for_part_size_above_1GiB:
  assumes "length F = 1073741825"
    and "faults w = []" and "ckpt_file w = None" and "ckpt_dir w \<noteq> NotDir"
    and "1073741825 \<le> max_offset w"
    and "CHR 0x0A \<notin> set (issue_id w)" and "issue_id w = [] \<or> last (issue_id w) \<noteq> CHR 0x0D"
    and "length (issue_id w) < MaxScanTokenSize"
    and "\<forall>body. length body = 1073741825 \<longrightarrow> tag_ok (etag_of w body)"
  shows "fst (uploadFile b path 1073741825 F w) = Done None
       \<and> objects (snd (uploadFile b path 1073741825 F w)) (TrimPrefix path)
           = Some (take 1073741824 F @ [0] @ drop 1073741824 F @ replicate 1073741824 0)
       \<and> fst (uploadFile b path 1073741825 F (killed 1 False b path 1073741825 F w)) = Done None
       \<and> objects (snd (uploadFile b path 1073741825 F (killed 1 False b path 1073741825 F w)))
             (TrimPrefix path)
           = Some (take 1073741824 F @ [0])
       \<and> objects (snd (uploadFile b path 1073741825 F (killed 1 False b path 1073741825 F w)))
             (TrimPrefix path)
           \<noteq> objects (snd (uploadFile b path 1073741825 F w)) (TrimPrefix path)"
proof -
  have m: "maxRW = 1073741824" by (simp add: maxRW_def)
  have s: "Suc maxRW = 1073741825" by (simp add: maxRW_def)
  have i: "int (Suc maxRW) = 1073741825" by (simp add: maxRW_def)
  have a1: "length F = Suc maxRW" using assms(1) by (simp only: s)
  have a5: "int (Suc maxRW) \<le> max_offset w" using assms(5) by (simp only: i)
  have a9: "\<forall>body. length body = Suc maxRW \<longrightarrow> tag_ok (etag_of w body)"
    using assms(9) by (simp only: s)
  note r = resume_above_maxRW [OF a1 assms(2,3,4) a5 assms(6,7,8) a9, of b path,
      unfolded i m]
  have "drop 1073741824 F \<noteq> []" using assms(1) by simp
  then have "take 1073741824 F @ [0]
      \<noteq> take 1073741824 F @ [0] @ drop 1073741824 F @ replicate 1073741824 0"
    by simp
  with r show ?thesis by simp
qed

theorem resume_breaks_for_part_size_above_1GiB_witness:
  "objects (snd (uploadFile ''b'' ''d/f'' 1073741825 (replicate 1073741825 1)
       (killed 1 False ''b'' ''d/f'' 1073741825 (replicate 1073741825 1) demo_world))) ''d/f''
     \<noteq> objects (snd (uploadFile ''b'' ''d/f'' 1073741825 (replicate 1073741825 1) demo_world))
         ''d/f''"
proof -
  have l: "length (replicate 1073741825 (1 :: byte)) = 1073741825"
    by (simp only: length_replicate)
  have h: "faults demo_world = []" "ckpt_file demo_world = None" "ckpt_dir demo_world \<noteq> NotDir"
    "1073741825 \<le> max_offset demo_world"
    "CHR 0x0A \<notin> set (issue_id demo_world)"
    "issue_id demo_world = [] \<or> last (issue_id demo_world) \<noteq> CHR 0x0D"
    "length (issue_id demo_world) < MaxScanTokenSize"
    by (simp_all add: demo_world_def MaxScanTokenSize_def)
  have e: "\<forall>body. length body = 1073741825 \<longrightarrow> tag_ok (etag_of demo_world body)"
    using demo_etag_ok by (simp add: demo_world_def)
  from resume_breaks_for_part_size_above_1GiB [OF l h e, of "''b''" "''d/f''"]
  show ?thesis by simp
qed

end
